theory Spec2Isabelle
  imports Main "HOL-Library.AList"
begin

section \<open>JavaScript values and objects used as maps\<close>

text \<open>
  The vector clock functions treat a plain object as a map from agent ids to numbers, with
  \<^verbatim>\<open>obj[key]\<close>, \<^verbatim>\<open>obj[key] = v\<close>, \<^verbatim>\<open>x || 0\<close>, \<^verbatim>\<open>x > y\<close>, \<^verbatim>\<open>Math.max\<close> and \<^verbatim>\<open>x + 1\<close>. This section
  models those operations as the language defines them, on the values they can meet:
  \<^item> \<open>Num n\<close>, the IEEE double whose value is the integer \<open>n\<close> (logical timestamps are
    integers; the operations below turn doubles into doubles);
  \<^item> \<open>NaN\<close>;
  \<^item> \<open>Member k\<close>, the value of \<^verbatim>\<open>Object.prototype[k]\<close>: a built-in function, or for
    \<^verbatim>\<open>__proto__\<close> the prototype object itself;
  \<^item> \<open>Text k n\<close>, the string that \<open>Member k\<close> converts to, followed by \<open>n\<close> characters \<^verbatim>\<open>1\<close>
    (what \<^verbatim>\<open>+ 1\<close> makes of such a value);
  \<^item> \<open>Undefined\<close>.
\<close>

datatype JsValue = Undefined | Num int | NaN | Text string nat | Member string

text \<open>
  An object is the list of its own properties in the order of their creation. Plain objects
  (literals, spreads, parsed JSON) inherit from \<^verbatim>\<open>Object.prototype\<close>, whose property names are
  listed here as Node has them. An engine enumerates integer-like keys before the others; no
  function below depends on the order of enumeration for the map it returns.
\<close>

type_synonym VectorClock = "(string \<times> JsValue) list"

definition objectPrototypeNames :: "string list" where
  "objectPrototypeNames =
     [''constructor'', ''__defineGetter__'', ''__defineSetter__'', ''hasOwnProperty'',
      ''__lookupGetter__'', ''__lookupSetter__'', ''isPrototypeOf'', ''propertyIsEnumerable'',
      ''toString'', ''valueOf'', ''__proto__'', ''toLocaleString'']"

text \<open>\<^verbatim>\<open>obj[key]\<close>: the own property, else the property inherited from the prototype, else
  \<^verbatim>\<open>undefined\<close>.\<close>

definition jsGet :: "VectorClock \<Rightarrow> string \<Rightarrow> JsValue" where
  "jsGet obj k =
     (case map_of obj k of
        Some v \<Rightarrow> v
      | None \<Rightarrow> if k \<in> set objectPrototypeNames then Member k else Undefined)"

text \<open>\<^verbatim>\<open>obj[key] = v\<close> for a primitive \<open>v\<close>: an own property is overwritten; an inherited
  \<^verbatim>\<open>__proto__\<close> is an accessor whose setter ignores a primitive, so nothing is stored; any other
  key becomes a new own property.\<close>

definition jsAssign :: "string \<Rightarrow> JsValue \<Rightarrow> VectorClock \<Rightarrow> VectorClock" where
  "jsAssign k v obj =
     (if map_of obj k = None \<and> k = ''__proto__'' then obj else AList.update k v obj)"

fun truthy :: "JsValue \<Rightarrow> bool" where
  "truthy Undefined = False"
| "truthy (Num n) = (n \<noteq> 0)"
| "truthy NaN = False"
| "truthy (Text k n) = True"
| "truthy (Member k) = True"

text \<open>\<^verbatim>\<open>x || 0\<close>.\<close>

definition orZero :: "JsValue \<Rightarrow> JsValue" where
  "orZero x = (if truthy x then x else Num 0)"

text \<open>ToNumber, \<open>None\<close> standing for NaN: a function, an object and the strings they convert
  to are not numeric.\<close>

fun toNumber :: "JsValue \<Rightarrow> int option" where
  "toNumber (Num n) = Some n"
| "toNumber v = None"

text \<open>The string a built-in member of \<^verbatim>\<open>Object.prototype\<close> converts to (Node), and the string
  a value is after ToPrimitive, if it is one.\<close>

definition memberText :: "string \<Rightarrow> string" where
  "memberText k =
     (if k = ''__proto__'' then ''[object Object]''
      else ''function '' @ (if k = ''constructor'' then ''Object'' else k) @ ''() { [native code] }'')"

fun toText :: "JsValue \<Rightarrow> string option" where
  "toText (Text k n) = Some (memberText k @ replicate n (CHR ''1''))"
| "toText (Member k) = Some (memberText k)"
| "toText v = None"

text \<open>Comparison of strings by code units.\<close>

fun strLess :: "string \<Rightarrow> string \<Rightarrow> bool" where
  "strLess [] [] = False"
| "strLess [] (y # ys) = True"
| "strLess (x # xs) [] = False"
| "strLess (x # xs) (y # ys) =
     ((of_char x :: nat) < of_char y \<or> (x = y \<and> strLess xs ys))"

text \<open>\<^verbatim>\<open>x > y\<close>: two strings are compared as strings; otherwise both are converted to
  numbers and a NaN makes the comparison false.\<close>

definition jsGreater :: "JsValue \<Rightarrow> JsValue \<Rightarrow> bool" where
  "jsGreater x y =
     (case (toText x, toText y) of
        (Some s, Some t) \<Rightarrow> strLess t s
      | _ \<Rightarrow> (case (toNumber x, toNumber y) of
                (Some m, Some n) \<Rightarrow> n < m
              | _ \<Rightarrow> False))"

text \<open>\<^verbatim>\<open>Math.max(x, y)\<close>.\<close>

definition jsMax :: "JsValue \<Rightarrow> JsValue \<Rightarrow> JsValue" where
  "jsMax x y =
     (case (toNumber x, toNumber y) of
        (Some m, Some n) \<Rightarrow> Num (max m n)
      | _ \<Rightarrow> NaN)"

text \<open>
  \<open>n + 1\<close> on the double \<open>n\<close>, rounded to the nearest double, ties to the even significand:
  exact up to \<open>2^53 = 9007199254740992\<close>; between \<open>2^53\<close> and \<open>2^54\<close> the doubles are the even
  integers and \<open>n + 1\<close> lies halfway between two of them; beyond, \<open>n + 1\<close> rounds back to \<open>n\<close>.
\<close>

definition addOne :: "int \<Rightarrow> int" where
  "addOne n =
     (if - 9007199254740992 \<le> n \<and> n < 9007199254740992 then n + 1
      else if (9007199254740992 \<le> n \<and> n < 18014398509481984)
            \<or> (- 18014398509481984 \<le> n \<and> n < - 9007199254740992)
           then (if even (n div 2) then n else n + 2)
      else n)"

text \<open>\<^verbatim>\<open>x + 1\<close>: a number is incremented; a function or an object is converted to its string
  and \<^verbatim>\<open>1\<close> is appended, as to a string.\<close>

fun jsPlusOne :: "JsValue \<Rightarrow> JsValue" where
  "jsPlusOne (Num n) = Num (addOne n)"
| "jsPlusOne (Text k n) = Text k (Suc n)"
| "jsPlusOne (Member k) = Text k 1"
| "jsPlusOne NaN = NaN"
| "jsPlusOne Undefined = NaN"

section \<open>Vector clocks (federation-hub.ts, "Vector Clock Utilities")\<close>

datatype ClockComparison = Before | After | Concurrent | Equal

text \<open>\<^verbatim>\<open>x || d\<close> on an optional wall-clock timestamp: \<^verbatim>\<open>undefined\<close> and \<^verbatim>\<open>0\<close> are falsy.\<close>

fun orElse :: "int option \<Rightarrow> int \<Rightarrow> int" where
  "orElse None d = d"
| "orElse (Some t) d = (if t = 0 then d else t)"

text \<open>\<^verbatim>\<open>new Set([...])\<close>: the elements without repetition, first occurrences in order.\<close>

definition newSet :: "string list \<Rightarrow> string list" where
  "newSet xs = rev (remdups (rev xs))"

text \<open>The body of the \<^verbatim>\<open>for (const agentId of allAgents)\<close> loop of compareVectorClocks,
  on the pair of flags \<^verbatim>\<open>(aHasNewer, bHasNewer)\<close>.\<close>

fun compareLoop :: "VectorClock \<Rightarrow> VectorClock \<Rightarrow> string list \<Rightarrow> bool \<times> bool \<Rightarrow> bool \<times> bool" where
  "compareLoop a b [] flags = flags"
| "compareLoop a b (agentId # rest) (aHasNewer, bHasNewer) =
     (let aTime = orZero (jsGet a agentId);
          bTime = orZero (jsGet b agentId)
      in if jsGreater aTime bTime then compareLoop a b rest (True, bHasNewer)
         else if jsGreater bTime aTime then compareLoop a b rest (aHasNewer, True)
         else compareLoop a b rest (aHasNewer, bHasNewer))"

definition compareVectorClocks :: "VectorClock \<Rightarrow> VectorClock \<Rightarrow> ClockComparison" where
  "compareVectorClocks a b =
     (let allAgents = newSet (map fst a @ map fst b);
          (aHasNewer, bHasNewer) = compareLoop a b allAgents (False, False)
      in if aHasNewer \<and> bHasNewer then Concurrent
         else if aHasNewer then After
         else if bHasNewer then Before
         else Equal)"

text \<open>The loop of mergeVectorClocks over \<^verbatim>\<open>Object.entries(b)\<close>, on \<^verbatim>\<open>result\<close>, which starts
  as the spread \<^verbatim>\<open>{ ...a }\<close>: the own properties of \<open>a\<close>.\<close>

fun mergeLoop :: "VectorClock \<Rightarrow> (string \<times> JsValue) list \<Rightarrow> VectorClock" where
  "mergeLoop result [] = result"
| "mergeLoop result ((agentId, timestamp) # rest) =
     mergeLoop (jsAssign agentId (jsMax (orZero (jsGet result agentId)) timestamp) result) rest"

definition mergeVectorClocks :: "VectorClock \<Rightarrow> VectorClock \<Rightarrow> VectorClock" where
  "mergeVectorClocks a b = mergeLoop a b"

text \<open>The object literal \<^verbatim>\<open>{ ...clock, [agentId]: ... }\<close> defines the computed key as an own
  property, whatever its name.\<close>

definition incrementVectorClock :: "VectorClock \<Rightarrow> string \<Rightarrow> VectorClock" where
  "incrementVectorClock clock agentId =
     AList.update agentId (jsPlusOne (orZero (jsGet clock agentId))) clock"

subsection \<open>Reading a clock\<close>

text \<open>The value of a dimension as the spec reads it: the number under the key, an absent
  key being 0 (spec, section 3).\<close>

definition clockAt :: "VectorClock \<Rightarrow> string \<Rightarrow> int" where
  "clockAt c k = (case map_of c k of Some (Num n) \<Rightarrow> n | _ \<Rightarrow> 0)"

definition agents :: "VectorClock \<Rightarrow> string set" where
  "agents c = set (map fst c)"

fun isNum :: "JsValue \<Rightarrow> bool" where
  "isNum (Num n) = True"
| "isNum v = False"

fun isCount :: "JsValue \<Rightarrow> bool" where
  "isCount (Num n) = (0 \<le> n)"
| "isCount v = False"

text \<open>Every value of the clock is an integer; no key of the clock names a property of
  \<^verbatim>\<open>Object.prototype\<close>.\<close>

definition numeric :: "VectorClock \<Rightarrow> bool" where
  "numeric c = list_all (\<lambda>(k, v). isNum v) c"

definition plainKeys :: "VectorClock \<Rightarrow> bool" where
  "plainKeys c = list_all (\<lambda>(k, v). k \<notin> set objectPrototypeNames) c"

text \<open>A clock as the spec's data model has it (an object has each key once, logical
  timestamps are non-negative integers), none of whose keys names a property of
  \<^verbatim>\<open>Object.prototype\<close>.\<close>

definition wellFormed :: "VectorClock \<Rightarrow> bool" where
  "wellFormed c = (distinct (map fst c) \<and> list_all (\<lambda>(k, v). isCount v) c \<and> plainKeys c)"

text \<open>The dimension \<open>k\<close> of the clock can be incremented exactly: it holds an integer of
  magnitude below \<open>2^53\<close>, or it is absent and \<open>k\<close> does not name a property of
  \<^verbatim>\<open>Object.prototype\<close>.\<close>

definition safeDimension :: "VectorClock \<Rightarrow> string \<Rightarrow> bool" where
  "safeDimension c k =
     (case map_of c k of
        Some v \<Rightarrow> isNum v \<and> - 9007199254740992 \<le> clockAt c k \<and> clockAt c k < 9007199254740992
      | None \<Rightarrow> k \<notin> set objectPrototypeNames)"

text \<open>Reading \<^verbatim>\<open>c[k] || 0\<close> gives the number the spec reads: the key holds an integer, or it is
  absent and does not name a property of \<^verbatim>\<open>Object.prototype\<close>.\<close>

definition readsNumber :: "VectorClock \<Rightarrow> string \<Rightarrow> bool" where
  "readsNumber c k =
     (case map_of c k of Some v \<Rightarrow> isNum v | None \<Rightarrow> k \<notin> set objectPrototypeNames)"

text \<open>Two objects with the same keys and the same value under each key.\<close>

definition sameClock :: "VectorClock \<Rightarrow> VectorClock \<Rightarrow> bool" where
  "sameClock a b = (map_of a = map_of b)"

text \<open>The reference definition of the comparison, in the words of the spec (section 4.1),
  over the union of the keys of both clocks.\<close>

definition compareSpec :: "VectorClock \<Rightarrow> VectorClock \<Rightarrow> ClockComparison \<Rightarrow> bool" where
  "compareSpec a b r =
     (let ks = agents a \<union> agents b in
      case r of
        Before \<Rightarrow> (\<forall>k\<in>ks. clockAt a k \<le> clockAt b k) \<and> (\<exists>k\<in>ks. clockAt a k < clockAt b k)
                  \<and> \<not> (\<exists>k\<in>ks. clockAt a k > clockAt b k)
      | After \<Rightarrow> (\<forall>k\<in>ks. clockAt b k \<le> clockAt a k) \<and> (\<exists>k\<in>ks. clockAt b k < clockAt a k)
                  \<and> \<not> (\<exists>k\<in>ks. clockAt b k > clockAt a k)
      | Concurrent \<Rightarrow> (\<exists>k\<in>ks. clockAt a k > clockAt b k) \<and> (\<exists>k\<in>ks. clockAt b k > clockAt a k)
      | Equal \<Rightarrow> (\<forall>k\<in>ks. clockAt a k = clockAt b k))"

text \<open>Swapping the two arguments of a comparison.\<close>

fun flipComparison :: "ClockComparison \<Rightarrow> ClockComparison" where
  "flipComparison Before = After"
| "flipComparison After = Before"
| "flipComparison Concurrent = Concurrent"
| "flipComparison Equal = Equal"

section \<open>Types of the federation module (types.ts)\<close>

datatype ConflictResolutionStrategy = LastWriteWins | FirstWriteWins | Custom | MergeStrategy

datatype SyncMessageType = Pull | Push | Ack | Nack

datatype SyncOperation = Insert | Update | Delete

datatype Resolution = Local | Remote | Merge | Skip

text \<open>Field names that several interfaces share carry a suffix: \<open>_u\<close> for SyncUpdate,
  \<open>_m\<close> for SyncMessage, \<open>_r\<close> for SyncResult, \<open>_s\<close> for SyncStats. The payload is opaque.\<close>

record SyncUpdate =
  id_u :: string
  operation_u :: SyncOperation
  data_u :: "string option"
  vectorClock_u :: VectorClock
  timestamp_u :: int

record SyncMessage =
  type_m :: SyncMessageType
  agentId_m :: string
  tenantId_m :: string
  vectorClock_m :: VectorClock
  timestamp_m :: int
  data_m :: "SyncUpdate list option"

record ConflictInfo =
  recordId :: string
  localVersion :: SyncUpdate
  remoteVersion :: SyncUpdate
  resolution :: Resolution
  reason :: string

record SyncResult =
  success :: bool
  pullCount :: nat
  pushCount :: nat
  conflictCount :: nat
  resolvedConflicts :: "ConflictInfo list"
  durationMs :: int
  vectorClock_r :: VectorClock

text \<open>\<^verbatim>\<open>avgSyncDurationMs\<close> is the floating-point quotient of a sum of durations by their
  number; it is kept as that sum and that number.\<close>

datatype Mean = MeanOf int nat

record SyncStats =
  lastSyncTime_s :: int
  totalSyncs :: nat
  totalPulled :: nat
  totalPushed :: nat
  totalConflicts :: nat
  totalResolved :: nat
  avgSyncDurationMs :: Mean

datatype FederationEvent =
    Connected string string
  | Disconnected string
  | SyncStarted string
  | SyncCompleted string SyncResult
  | SyncFailed string string
  | ConflictDetected string VectorClock VectorClock
  | ConflictResolved string Resolution
  | AgentJoined string string
  | AgentLeft string string

text \<open>The configuration fields the hub's logic reads (the TLS paths and the sync interval
  are only stored).\<close>

record FederationHubConfig =
  endpoint :: string
  agentId :: string
  tenantId :: string
  token :: string
  conflictResolution :: "ConflictResolutionStrategy option"

section \<open>The federation hub (federation-hub.ts, class FederationHub)\<close>

text \<open>
  The methods are modelled as run one at a time, each to its end (an \<^verbatim>\<open>await\<close> is the call
  it waits for); calls of the logger change nothing and are left out.
  The private fields of the class, and three fields that record its effects on the outside:
  \<open>emitted\<close>, the events handed to \<^verbatim>\<open>emitEvent\<close> in order; \<open>applied\<close>, the updates handed to
  \<^verbatim>\<open>applyUpdate\<close> in order; \<open>nowCalls\<close>, the number of readings of \<^verbatim>\<open>Date.now()\<close> so far.

  The change log is an array of references to the objects that were handed to
  \<^verbatim>\<open>recordChange\<close>. \<open>changeLog\<close> holds the present contents of those objects and \<open>logRefs\<close>, entry
  by entry, the identity of the object behind each, so that an object recorded twice is
  one object seen at two places of the log.
\<close>

record FederationHub =
  config :: FederationHubConfig
  connected :: bool
  vectorClock :: VectorClock
  lastSyncTime :: int
  changeLog :: "SyncUpdate list"
  logRefs :: "nat list"
  stats :: SyncStats
  syncDurations :: "int list"
  emitted :: "FederationEvent list"
  applied :: "SyncUpdate list"
  nowCalls :: nat

text \<open>
  What the hub does not own: the wall clock (\<open>now n\<close> is the n-th reading of
  \<^verbatim>\<open>Date.now()\<close>) and the transport behind \<^verbatim>\<open>sendSyncMessage\<close>, which answers a message with
  the hub's updates or throws (\<open>Inl\<close> of the error's message).
\<close>

record Env =
  now :: "nat \<Rightarrow> int"
  send :: "SyncMessage \<Rightarrow> string + SyncUpdate list"

text \<open>The body of \<^verbatim>\<open>sendSyncMessage\<close> as the file has it: a stand-in for the transport that
  answers every message with no update.\<close>

definition sendSyncMessage :: "SyncMessage \<Rightarrow> string + SyncUpdate list" where
  "sendSyncMessage message = Inr []"

definition dateNow :: "Env \<Rightarrow> FederationHub \<Rightarrow> int \<times> FederationHub" where
  "dateNow env h = (now env (nowCalls h), h\<lparr>nowCalls := Suc (nowCalls h)\<rparr>)"

definition emitEvent :: "FederationEvent \<Rightarrow> FederationHub \<Rightarrow> FederationHub" where
  "emitEvent event h = h\<lparr>emitted := emitted h @ [event]\<rparr>"

definition applyUpdate :: "SyncUpdate \<Rightarrow> FederationHub \<Rightarrow> FederationHub" where
  "applyUpdate update h = h\<lparr>applied := applied h @ [update]\<rparr>"

definition initialStats :: SyncStats where
  "initialStats = \<lparr>lastSyncTime_s = 0, totalSyncs = 0, totalPulled = 0, totalPushed = 0,
     totalConflicts = 0, totalResolved = 0, avgSyncDurationMs = MeanOf 0 1\<rparr>"

text \<open>The constructor: \<^verbatim>\<open>conflictResolution ?? 'last-write-wins'\<close>, and the assignment
  \<^verbatim>\<open>this.vectorClock[config.agentId] = 0\<close> on an empty clock.\<close>

definition createFederationHub :: "FederationHubConfig \<Rightarrow> FederationHub" where
  "createFederationHub cfg =
     \<lparr>config = cfg\<lparr>conflictResolution :=
          Some (case conflictResolution cfg of None \<Rightarrow> LastWriteWins | Some s \<Rightarrow> s)\<rparr>,
      connected = False,
      vectorClock = jsAssign (agentId cfg) (Num 0) [],
      lastSyncTime = 0,
      changeLog = [],
      logRefs = [],
      stats = initialStats,
      syncDurations = [],
      emitted = [],
      applied = [],
      nowCalls = 0\<rparr>"

definition connect :: "Env \<Rightarrow> FederationHub \<Rightarrow> FederationHub" where
  "connect env h =
     (if connected h then h
      else let (t, h1) = dateNow env (h\<lparr>connected := True\<rparr>);
               h2 = h1\<lparr>lastSyncTime := t\<rparr>
           in emitEvent (Connected (agentId (config h2)) (endpoint (config h2))) h2)"

definition disconnect :: "FederationHub \<Rightarrow> FederationHub" where
  "disconnect h =
     (if \<not> connected h then h
      else emitEvent (Disconnected (agentId (config h))) (h\<lparr>connected := False\<rparr>))"

subsection \<open>Conflict resolution\<close>

text \<open>A number or \<^verbatim>\<open>Infinity\<close>, for \<^verbatim>\<open>localVersion?.timestamp || Infinity\<close>.\<close>

datatype Extended = Finite int | Infinity

fun orInfinity :: "int option \<Rightarrow> Extended" where
  "orInfinity None = Infinity"
| "orInfinity (Some t) = (if t = 0 then Infinity else Finite t)"

fun numLess :: "int \<Rightarrow> Extended \<Rightarrow> bool" where
  "numLess x Infinity = True"
| "numLess x (Finite y) = (x < y)"

definition resolveConflict :: "Env \<Rightarrow> FederationHub \<Rightarrow> SyncUpdate \<Rightarrow> ConflictInfo \<times> FederationHub" where
  "resolveConflict env h remoteUpdate =
     (let found = find (\<lambda>u. id_u u = id_u remoteUpdate) (changeLog h);
          (localOrPlaceholder, h1) =
            (case found of
               Some l \<Rightarrow> (l, h)
             | None \<Rightarrow>
                 (let (t, h') = dateNow env h
                  in (\<lparr>id_u = id_u remoteUpdate, operation_u = Update, data_u = None,
                       vectorClock_u = vectorClock h, timestamp_u = t\<rparr>, h')));
          conflictInfo = \<lparr>recordId = id_u remoteUpdate, localVersion = localOrPlaceholder,
                          remoteVersion = remoteUpdate, resolution = Skip, reason = []\<rparr>;
          localTimestamp = map_option timestamp_u found
      in (case conflictResolution (config h) of
            Some LastWriteWins \<Rightarrow>
              if timestamp_u remoteUpdate > orElse localTimestamp 0
              then conflictInfo\<lparr>resolution := Remote, reason := ''Remote has newer timestamp''\<rparr>
              else conflictInfo\<lparr>resolution := Local, reason := ''Local has newer timestamp''\<rparr>
          | Some FirstWriteWins \<Rightarrow>
              if numLess (timestamp_u remoteUpdate) (orInfinity localTimestamp)
              then conflictInfo\<lparr>resolution := Remote, reason := ''Remote has older timestamp''\<rparr>
              else conflictInfo\<lparr>resolution := Local, reason := ''Local has older timestamp''\<rparr>
          | Some MergeStrategy \<Rightarrow>
              conflictInfo\<lparr>resolution := Merge, reason := ''Merged local and remote data''\<rparr>
          | _ \<Rightarrow>
              conflictInfo\<lparr>resolution := Skip, reason := ''No resolution strategy''\<rparr>,
          h1))"

definition processRemoteUpdate ::
    "Env \<Rightarrow> FederationHub \<Rightarrow> SyncUpdate \<Rightarrow> ConflictInfo option \<times> FederationHub" where
  "processRemoteUpdate env h update =
     (let comparison = compareVectorClocks (vectorClock h) (vectorClock_u update)
      in if comparison = Concurrent
         then let h1 = emitEvent (ConflictDetected (id_u update) (vectorClock h) (vectorClock_u update)) h;
                  (res, h2) = resolveConflict env h1 update;
                  h3 = emitEvent (ConflictResolved (id_u update) (resolution res)) h2
              in (Some res, h3)
         else let h1 = applyUpdate update h;
                  h2 = h1\<lparr>vectorClock := mergeVectorClocks (vectorClock h1) (vectorClock_u update)\<rparr>
              in (None, h2))"

subsection \<open>One sync cycle\<close>

text \<open>The loop over \<^verbatim>\<open>remoteUpdates\<close>, collecting the conflicts.\<close>

fun pullLoop :: "Env \<Rightarrow> SyncUpdate list \<Rightarrow> ConflictInfo list \<Rightarrow> FederationHub
    \<Rightarrow> ConflictInfo list \<times> FederationHub" where
  "pullLoop env [] conflicts h = (conflicts, h)"
| "pullLoop env (update # rest) conflicts h =
     (case processRemoteUpdate env h update of
        (Some conflict, h') \<Rightarrow> pullLoop env rest (conflicts @ [conflict]) h'
      | (None, h') \<Rightarrow> pullLoop env rest conflicts h')"

definition getLocalChanges :: "FederationHub \<Rightarrow> SyncUpdate list" where
  "getLocalChanges h = changeLog h"

definition clearLocalChanges :: "FederationHub \<Rightarrow> FederationHub" where
  "clearLocalChanges h = h\<lparr>changeLog := [], logRefs := []\<rparr>"

definition updateAvgDuration :: "int \<Rightarrow> FederationHub \<Rightarrow> FederationHub" where
  "updateAvgDuration d h =
     (let pushed = syncDurations h @ [d];
          durations = (if length pushed > 100 then tl pushed else pushed)
      in h\<lparr>syncDurations := durations,
            stats := (stats h)\<lparr>avgSyncDurationMs :=
              MeanOf (foldl (+) 0 durations) (length durations)\<rparr>\<rparr>)"

text \<open>The push leg: nothing is sent for an empty change log; the log is cleared after the
  transport has answered.\<close>

definition pushLeg :: "Env \<Rightarrow> SyncUpdate list \<Rightarrow> FederationHub \<Rightarrow> (string + unit) \<times> FederationHub" where
  "pushLeg env localChanges h =
     (if length localChanges > 0
      then let (t, h1) = dateNow env h;
               pushMessage = \<lparr>type_m = Push, agentId_m = agentId (config h1),
                  tenantId_m = tenantId (config h1), vectorClock_m = vectorClock h1,
                  timestamp_m = t, data_m = Some localChanges\<rparr>
           in (case send env pushMessage of
                 Inl err \<Rightarrow> (Inl err, h1)
               | Inr _ \<Rightarrow> (Inr (), clearLocalChanges h1))
      else (Inr (), h))"

text \<open>The statements after the push: duration, statistics, result, \<^verbatim>\<open>sync_completed\<close>.\<close>

definition finishSync ::
    "Env \<Rightarrow> int \<Rightarrow> SyncUpdate list \<Rightarrow> SyncUpdate list \<Rightarrow> ConflictInfo list \<Rightarrow> FederationHub
     \<Rightarrow> SyncResult \<times> FederationHub" where
  "finishSync env startTime remoteUpdates localChanges conflicts h =
     (let (t1, h1) = dateNow env h;
          duration = t1 - startTime;
          (t2, h2) = dateNow env h1;
          h3 = h2\<lparr>lastSyncTime := t2\<rparr>;
          h4 = h3\<lparr>stats := (stats h3)\<lparr>
                 totalSyncs := totalSyncs (stats h3) + 1,
                 totalPulled := totalPulled (stats h3) + length remoteUpdates,
                 totalPushed := totalPushed (stats h3) + length localChanges,
                 totalConflicts := totalConflicts (stats h3) + length conflicts,
                 totalResolved := totalResolved (stats h3)
                    + length (filter (\<lambda>c. resolution c \<noteq> Skip) conflicts),
                 lastSyncTime_s := lastSyncTime h3\<rparr>\<rparr>;
          h5 = updateAvgDuration duration h4;
          result = \<lparr>success = True, pullCount = length remoteUpdates,
                    pushCount = length localChanges, conflictCount = length conflicts,
                    resolvedConflicts = conflicts, durationMs = duration,
                    vectorClock_r = vectorClock h5\<rparr>
      in (result, emitEvent (SyncCompleted (agentId (config h5)) result) h5))"

text \<open>The \<^verbatim>\<open>try\<close> block of \<^verbatim>\<open>sync\<close>: \<open>Inl\<close> is the error thrown inside it.\<close>

definition syncTry :: "Env \<Rightarrow> int \<Rightarrow> FederationHub \<Rightarrow> (string + SyncResult) \<times> FederationHub" where
  "syncTry env startTime h =
     (let h1 = h\<lparr>vectorClock := incrementVectorClock (vectorClock h) (agentId (config h))\<rparr>;
          (t, h2) = dateNow env h1;
          pullMessage = \<lparr>type_m = Pull, agentId_m = agentId (config h2),
             tenantId_m = tenantId (config h2), vectorClock_m = vectorClock h2,
             timestamp_m = t, data_m = None\<rparr>
      in case send env pullMessage of
           Inl err \<Rightarrow> (Inl err, h2)
         | Inr remoteUpdates \<Rightarrow>
             (let (conflicts, h3) = pullLoop env remoteUpdates [] h2;
                  localChanges = getLocalChanges h3
              in case pushLeg env localChanges h3 of
                   (Inl err, h4) \<Rightarrow> (Inl err, h4)
                 | (Inr _, h4) \<Rightarrow>
                     (let (result, h5) = finishSync env startTime remoteUpdates localChanges conflicts h4
                      in (Inr result, h5))))"

definition notConnected :: string where
  "notConnected = ''Not connected to federation hub''"

definition sync :: "Env \<Rightarrow> FederationHub \<Rightarrow> (string + SyncResult) \<times> FederationHub" where
  "sync env h =
     (if \<not> connected h then (Inl notConnected, h)
      else let (startTime, h1) = dateNow env h;
               h2 = emitEvent (SyncStarted (agentId (config h1))) h1
           in case syncTry env startTime h2 of
                (Inl err, h3) \<Rightarrow> (Inl err, emitEvent (SyncFailed (agentId (config h3)) err) h3)
              | (Inr result, h3) \<Rightarrow> (Inr result, h3))"

definition forcePush :: "Env \<Rightarrow> SyncUpdate list \<Rightarrow> FederationHub \<Rightarrow> (string + unit) \<times> FederationHub" where
  "forcePush env updates h =
     (if \<not> connected h then (Inl notConnected, h)
      else let (t, h1) = dateNow env h;
               pushMessage = \<lparr>type_m = Push, agentId_m = agentId (config h1),
                  tenantId_m = tenantId (config h1), vectorClock_m = vectorClock h1,
                  timestamp_m = t, data_m = Some updates\<rparr>
           in case send env pushMessage of
                Inl err \<Rightarrow> (Inl err, h1)
              | Inr _ \<Rightarrow> (Inr (), h1\<lparr>stats := (stats h1)\<lparr>
                    totalPushed := totalPushed (stats h1) + length updates\<rparr>\<rparr>))"

definition forcePull :: "Env \<Rightarrow> FederationHub \<Rightarrow> (string + SyncUpdate list) \<times> FederationHub" where
  "forcePull env h =
     (if \<not> connected h then (Inl notConnected, h)
      else let (t, h1) = dateNow env h;
               pullMessage = \<lparr>type_m = Pull, agentId_m = agentId (config h1),
                  tenantId_m = tenantId (config h1), vectorClock_m = vectorClock h1,
                  timestamp_m = t, data_m = None\<rparr>
           in case send env pullMessage of
                Inl err \<Rightarrow> (Inl err, h1)
              | Inr updates \<Rightarrow> (Inr updates, h1\<lparr>stats := (stats h1)\<lparr>
                    totalPulled := totalPulled (stats h1) + length updates\<rparr>\<rparr>))"

text \<open>
  \<^verbatim>\<open>recordChange(update)\<close> writes the stamp into the caller's object and pushes a reference to
  it. \<open>ref\<close> is the identity of that object and \<open>update\<close> its contents at the call (the
  caller is taken not to write to a recorded object between calls). Where the log already
  refers to the same object, those entries show the new stamp too.
\<close>

fun restamp :: "nat \<Rightarrow> SyncUpdate \<Rightarrow> nat list \<Rightarrow> SyncUpdate list \<Rightarrow> SyncUpdate list" where
  "restamp ref stamped (r # refs) (u # log) =
     (if r = ref then stamped else u) # restamp ref stamped refs log"
| "restamp ref stamped [] log = log"
| "restamp ref stamped refs [] = []"

definition recordChange :: "Env \<Rightarrow> nat \<Rightarrow> SyncUpdate \<Rightarrow> FederationHub \<Rightarrow> FederationHub" where
  "recordChange env ref update h =
     (let (t, h1) = dateNow env h;
          stamped = update\<lparr>vectorClock_u := vectorClock h1, timestamp_u := t\<rparr>;
          h2 = h1\<lparr>changeLog := restamp ref stamped (logRefs h1) (changeLog h1) @ [stamped],
                  logRefs := logRefs h1 @ [ref]\<rparr>
      in h2\<lparr>vectorClock := incrementVectorClock (vectorClock h2) (agentId (config h2))\<rparr>)"

section \<open>Vocabulary of the statements\<close>

text \<open>The pull message a sync cycle started in state \<open>h\<close> sends: \<^verbatim>\<open>Date.now()\<close> has been read
  once (the start time) and the hub's own dimension incremented before it is built.\<close>

definition syncPullMessage :: "Env \<Rightarrow> FederationHub \<Rightarrow> SyncMessage" where
  "syncPullMessage env h =
     \<lparr>type_m = Pull, agentId_m = agentId (config h), tenantId_m = tenantId (config h),
      vectorClock_m = incrementVectorClock (vectorClock h) (agentId (config h)),
      timestamp_m = now env (Suc (nowCalls h)), data_m = None\<rparr>"

text \<open>What the pull of a sync cycle started in \<open>h\<close> delivers: nothing when the transport
  throws.\<close>

definition pulledUpdates :: "Env \<Rightarrow> FederationHub \<Rightarrow> SyncUpdate list" where
  "pulledUpdates env h = (case send env (syncPullMessage env h) of Inl err \<Rightarrow> [] | Inr us \<Rightarrow> us)"

text \<open>The hub's clock after a sequence of remote updates has been processed from clock
  \<open>c\<close>: an update concurrent with the clock it meets leaves it, any other is merged.\<close>

fun clockAfter :: "VectorClock \<Rightarrow> SyncUpdate list \<Rightarrow> VectorClock" where
  "clockAfter c [] = c"
| "clockAfter c (u # us) =
     clockAfter (if compareVectorClocks c (vectorClock_u u) = Concurrent then c
                 else mergeVectorClocks c (vectorClock_u u)) us"

text \<open>The updates of a sequence that are not concurrent with the clock they meet, and those
  that are, in the order received.\<close>

fun nonConflicting :: "VectorClock \<Rightarrow> SyncUpdate list \<Rightarrow> SyncUpdate list" where
  "nonConflicting c [] = []"
| "nonConflicting c (u # us) =
     (if compareVectorClocks c (vectorClock_u u) = Concurrent then nonConflicting c us
      else u # nonConflicting (mergeVectorClocks c (vectorClock_u u)) us)"

fun conflicting :: "VectorClock \<Rightarrow> SyncUpdate list \<Rightarrow> SyncUpdate list" where
  "conflicting c [] = []"
| "conflicting c (u # us) =
     (if compareVectorClocks c (vectorClock_u u) = Concurrent then u # conflicting c us
      else conflicting (mergeVectorClocks c (vectorClock_u u)) us)"

text \<open>The state of a sync cycle started in \<open>h\<close> at the moment its pull message is sent:
  \<^verbatim>\<open>Date.now()\<close> read twice, \<^verbatim>\<open>sync_started\<close> emitted, the own dimension incremented.\<close>

definition atPull :: "FederationHub \<Rightarrow> FederationHub" where
  "atPull h =
     h\<lparr>emitted := emitted h @ [SyncStarted (agentId (config h))],
       vectorClock := incrementVectorClock (vectorClock h) (agentId (config h)),
       nowCalls := Suc (Suc (nowCalls h))\<rparr>"

section \<open>Concrete hubs, transports and updates\<close>

text \<open>A hub for agent A with the default strategy, a wall clock that starts at 1000 and
  advances by one at each reading, and transports: the file's stand-in that answers nothing,
  one whose pull returns a given list and whose pushes throw, one that throws always, and one
  whose pull returns a given list and whose pushes are answered.\<close>

definition configA :: FederationHubConfig where
  "configA = \<lparr>endpoint = ''quic://hub:4433'', agentId = ''A'', tenantId = ''tenant-1'',
     token = ''jwt'', conflictResolution = None\<rparr>"

definition quietEnv :: Env where
  "quietEnv = \<lparr>now = (\<lambda>n. 1000 + int n), send = sendSyncMessage\<rparr>"

definition pushFailsEnv :: "SyncUpdate list \<Rightarrow> Env" where
  "pushFailsEnv us = \<lparr>now = (\<lambda>n. 1000 + int n),
     send = (\<lambda>m. if type_m m = Push then Inl ''push failed'' else Inr us)\<rparr>"

definition pullFailsEnv :: Env where
  "pullFailsEnv = \<lparr>now = (\<lambda>n. 1000 + int n), send = (\<lambda>m. Inl ''hub unreachable'')\<rparr>"

definition pullReturnsEnv :: "SyncUpdate list \<Rightarrow> Env" where
  "pullReturnsEnv us = \<lparr>now = (\<lambda>n. 1000 + int n),
     send = (\<lambda>m. if type_m m = Pull then Inr us else Inr [])\<rparr>"

definition remoteB :: SyncUpdate where
  "remoteB = \<lparr>id_u = ''r1'', operation_u = Update, data_u = Some ''remote'',
     vectorClock_u = [(''A'', Num 0), (''B'', Num 1)], timestamp_u = 2000\<rparr>"

definition remoteAhead :: SyncUpdate where
  "remoteAhead = \<lparr>id_u = ''r2'', operation_u = Insert, data_u = Some ''ahead'',
     vectorClock_u = [(''A'', Num 2), (''B'', Num 2)], timestamp_u = 2001\<rparr>"

definition localChange :: SyncUpdate where
  "localChange = \<lparr>id_u = ''r1'', operation_u = Update, data_u = Some ''local'',
     vectorClock_u = [], timestamp_u = 0\<rparr>"

text \<open>A wall clock whose first reading is 0 (the epoch, where fake timers start), and a hub
  under first-write-wins that has recorded one change at that reading.\<close>

definition epochEnv :: Env where
  "epochEnv = \<lparr>now = (\<lambda>n. int n), send = sendSyncMessage\<rparr>"

definition hubFirst :: FederationHub where
  "hubFirst = recordChange epochEnv 1 localChange
     (createFederationHub (configA\<lparr>conflictResolution := Some FirstWriteWins\<rparr>))"

definition hubMerge :: FederationHub where
  "hubMerge = connect quietEnv
     (createFederationHub (configA\<lparr>conflictResolution := Some MergeStrategy\<rparr>))"

definition hubA :: FederationHub where
  "hubA = connect quietEnv (createFederationHub configA)"

text \<open>A hub whose clock has a dimension at 0 that a later peer clock lacks, reached by one
  sync; and a hub whose own dimension stands at \<open>2^53\<close>, reached by merging one peer clock.\<close>

definition remoteC :: SyncUpdate where
  "remoteC = \<lparr>id_u = ''r3'', operation_u = Insert, data_u = None,
     vectorClock_u = [(''A'', Num 1), (''C'', Num 0)], timestamp_u = 2002\<rparr>"

definition hubC :: FederationHub where
  "hubC = snd (sync (pullReturnsEnv [remoteC]) hubA)"

definition remoteAB :: SyncUpdate where
  "remoteAB = \<lparr>id_u = ''r4'', operation_u = Update, data_u = None,
     vectorClock_u = [(''A'', Num 3), (''B'', Num 1)], timestamp_u = 2003\<rparr>"

definition remoteBig :: SyncUpdate where
  "remoteBig = \<lparr>id_u = ''r5'', operation_u = Update, data_u = None,
     vectorClock_u = [(''A'', Num 9007199254740992)], timestamp_u = 2004\<rparr>"

definition hubBig :: FederationHub where
  "hubBig = snd (sync (pullReturnsEnv [remoteBig]) hubA)"


section \<open>Properties of the vector clock algebra\<close>

lemma isNum_iff: "isNum v = (\<exists>n. v = Num n)"
  by (cases v) simp_all

lemma numeric_map_of: "numeric c \<Longrightarrow> map_of c k = Some v \<Longrightarrow> isNum v"
  by (auto simp: numeric_def list_all_iff dest: map_of_SomeD)

lemma plainKeys_iff: "plainKeys c = (\<forall>k\<in>agents c. k \<notin> set objectPrototypeNames)"
  by (auto simp: plainKeys_def agents_def list_all_iff)

lemma agents_map_of: "(k \<in> agents c) = (map_of c k \<noteq> None)"
  by (simp add: agents_def map_of_eq_None_iff)

lemma readsNumber_own: "numeric c \<Longrightarrow> k \<in> agents c \<Longrightarrow> readsNumber c k"
  by (auto simp: readsNumber_def agents_map_of dest: numeric_map_of split: option.splits)

lemma readsNumber_plain: "numeric c \<Longrightarrow> k \<notin> set objectPrototypeNames \<Longrightarrow> readsNumber c k"
  by (auto simp: readsNumber_def dest: numeric_map_of split: option.splits)

lemma read_number: "readsNumber c k \<Longrightarrow> orZero (jsGet c k) = Num (clockAt c k)"
  by (auto simp: readsNumber_def jsGet_def orZero_def clockAt_def isNum_iff split: option.splits)

lemma jsGreater_Num: "jsGreater (Num m) (Num n) = (n < m)"
  by (simp add: jsGreater_def)

lemma jsMax_Num: "jsMax (Num m) (Num n) = Num (max m n)"
  by (simp add: jsMax_def)

lemma set_newSet: "set (newSet xs) = set xs"
  by (simp add: newSet_def)

lemma clockAt_absent: "k \<notin> agents c \<Longrightarrow> clockAt c k = 0"
  by (simp add: agents_map_of clockAt_def)

lemma compareLoop_flags:
  assumes "\<forall>k\<in>set ks. readsNumber a k \<and> readsNumber b k"
  shows "compareLoop a b ks (x, y) =
     (x \<or> (\<exists>k\<in>set ks. clockAt a k > clockAt b k), y \<or> (\<exists>k\<in>set ks. clockAt b k > clockAt a k))"
  using assms
proof (induction ks arbitrary: x y)
  case Nil
  show ?case by simp
next
  case (Cons k ks)
  then have r: "orZero (jsGet a k) = Num (clockAt a k)" "orZero (jsGet b k) = Num (clockAt b k)"
    and rest: "\<forall>k\<in>set ks. readsNumber a k \<and> readsNumber b k"
    by (simp_all add: read_number)
  show ?case
    by (simp add: Cons.IH[OF rest] r jsGreater_Num Let_def)
qed

text \<open>Two clocks that the comparison reads as the maps they are: integer values, and no key
  that names a property of \<^verbatim>\<open>Object.prototype\<close>.\<close>

lemma compare_flags:
  assumes "numeric a" "numeric b" "plainKeys a" "plainKeys b"
  shows "compareVectorClocks a b =
     (let x = (\<exists>k\<in>agents a \<union> agents b. clockAt a k > clockAt b k);
          y = (\<exists>k\<in>agents a \<union> agents b. clockAt b k > clockAt a k)
      in if x \<and> y then Concurrent else if x then After else if y then Before else Equal)"
proof -
  have "\<forall>k\<in>set (newSet (map fst a @ map fst b)). readsNumber a k \<and> readsNumber b k"
    using assms by (auto simp: set_newSet plainKeys_iff agents_def intro: readsNumber_plain)
  then show ?thesis
    by (simp add: compareVectorClocks_def compareLoop_flags set_newSet agents_def Let_def)
qed

lemma compare_iff_spec:
  assumes "numeric a" "numeric b" "plainKeys a" "plainKeys b"
  shows "(compareVectorClocks a b = r) = compareSpec a b r"
proof -
  define K where "K = agents a \<union> agents b"
  define x where "x = (\<exists>k\<in>K. clockAt a k > clockAt b k)"
  define y where "y = (\<exists>k\<in>K. clockAt b k > clockAt a k)"
  have le_ab: "(\<forall>k\<in>K. clockAt a k \<le> clockAt b k) = (\<not> x)"
    unfolding x_def by (simp add: not_less)
  have le_ba: "(\<forall>k\<in>K. clockAt b k \<le> clockAt a k) = (\<not> y)"
    unfolding y_def by (simp add: not_less)
  have eq: "(\<forall>k\<in>K. clockAt a k = clockAt b k) = (\<not> x \<and> \<not> y)"
    unfolding le_ab[symmetric] le_ba[symmetric] by (auto intro: order_antisym)
  have code: "compareVectorClocks a b =
      (if x \<and> y then Concurrent else if x then After else if y then Before else Equal)"
    unfolding compare_flags[OF assms] x_def y_def K_def Let_def by simp
  have spec: "compareSpec a b r =
      (case r of Before \<Rightarrow> \<not> x \<and> y | After \<Rightarrow> \<not> y \<and> x
       | Concurrent \<Rightarrow> x \<and> y | Equal \<Rightarrow> \<not> x \<and> \<not> y)"
    unfolding compareSpec_def Let_def K_def[symmetric] le_ab le_ba eq
    unfolding x_def[symmetric] y_def[symmetric]
    by (cases r) auto
  show ?thesis unfolding code spec by (cases r) auto
qed

lemma compare_refl: "numeric a \<Longrightarrow> plainKeys a \<Longrightarrow> compareVectorClocks a a = Equal"
  by (simp add: compare_flags)

lemma compare_flip:
  assumes "numeric a" "numeric b" "plainKeys a" "plainKeys b"
  shows "compareVectorClocks b a = flipComparison (compareVectorClocks a b)"
  by (simp add: compare_flags assms Let_def Un_commute)

subsection \<open>Merging\<close>

lemma jsAssign_plain: "k \<notin> set objectPrototypeNames \<Longrightarrow> jsAssign k v r = AList.update k v r"
  by (auto simp: jsAssign_def objectPrototypeNames_def)

lemma jsAssign_own: "map_of r k \<noteq> None \<Longrightarrow> jsAssign k v r = AList.update k v r"
  by (auto simp: jsAssign_def)

lemma numeric_update: "numeric r \<Longrightarrow> isNum v \<Longrightarrow> numeric (AList.update k v r)"
  unfolding numeric_def by (induction r) auto

lemma counts_update:
  "list_all (\<lambda>(k, v). isCount v) r \<Longrightarrow> isCount v \<Longrightarrow> list_all (\<lambda>(k, v). isCount v) (AList.update k v r)"
  by (induction r) auto

lemma plainKeys_update:
  "plainKeys r \<Longrightarrow> k \<notin> set objectPrototypeNames \<Longrightarrow> plainKeys (AList.update k v r)"
  unfolding plainKeys_def by (induction r) auto

lemma map_of_mergeLoop:
  assumes "distinct (map fst es)" "numeric es" "plainKeys es" "numeric r"
  shows "map_of (mergeLoop r es) k =
     (case map_of es k of None \<Rightarrow> map_of r k
      | Some t \<Rightarrow> Some (Num (max (clockAt r k) (clockAt es k))))"
  using assms
proof (induction es arbitrary: r)
  case Nil
  show ?case by simp
next
  case (Cons e es)
  obtain k' t' where e: "e = (k', t')" by (cases e)
  from Cons.prems e obtain n where t': "t' = Num n"
    by (auto simp: numeric_def isNum_iff)
  from Cons.prems e have d: "distinct (map fst es)" and nk: "k' \<notin> fst ` set es"
    and nu: "numeric es" and pk: "plainKeys es" and k': "k' \<notin> set objectPrototypeNames"
    by (auto simp: numeric_def plainKeys_def)
  from nk have none: "map_of es k' = None" by (simp add: map_of_eq_None_iff)
  have rd: "orZero (jsGet r k') = Num (clockAt r k')"
    using Cons.prems(4) k' by (simp add: read_number readsNumber_plain)
  let ?r = "AList.update k' (Num (max (clockAt r k') n)) r"
  have step: "mergeLoop r (e # es) = mergeLoop ?r es"
    by (simp add: e t' rd jsMax_Num jsAssign_plain[OF k'])
  have nr: "numeric ?r" using Cons.prems(4) by (simp add: numeric_update)
  show ?case
    unfolding step Cons.IH[OF d nu pk nr]
    using none by (auto simp: e t' update_conv' clockAt_def split: option.splits)
qed

lemma distinct_jsAssign: "distinct (map fst r) \<Longrightarrow> distinct (map fst (jsAssign k v r))"
  by (simp add: jsAssign_def distinct_update)

lemma distinct_mergeLoop: "distinct (map fst r) \<Longrightarrow> distinct (map fst (mergeLoop r es))"
  by (induction es arbitrary: r) (auto simp: distinct_jsAssign)

lemma agents_mergeLoop:
  "plainKeys es \<Longrightarrow> fst ` set (mergeLoop r es) = fst ` set r \<union> fst ` set es"
proof (induction es arbitrary: r)
  case Nil
  show ?case by simp
next
  case (Cons e es)
  obtain k t where e: "e = (k, t)" by (cases e)
  from Cons.prems e have pk: "plainKeys es" and k: "k \<notin> set objectPrototypeNames"
    by (auto simp: plainKeys_def)
  show ?case unfolding e mergeLoop.simps Cons.IH[OF pk] jsAssign_plain[OF k] dom_update by auto
qed

lemma agents_merge: "plainKeys b \<Longrightarrow> agents (mergeVectorClocks a b) = agents a \<union> agents b"
  by (simp add: agents_def mergeVectorClocks_def agents_mergeLoop)

lemma wellFormed_parts:
  "wellFormed c \<Longrightarrow> distinct (map fst c) \<and> numeric c \<and> plainKeys c"
proof -
  assume w: "wellFormed c"
  have "isNum v" if "isCount v" for v using that by (cases v) simp_all
  with w have "numeric c" by (auto simp: wellFormed_def numeric_def list_all_iff)
  with w show ?thesis by (simp add: wellFormed_def)
qed

lemma wellFormed_nonneg: "wellFormed c \<Longrightarrow> map_of c k = Some v \<Longrightarrow> \<exists>n. v = Num n \<and> 0 \<le> n"
proof -
  assume "wellFormed c" "map_of c k = Some v"
  then have "isCount v" by (auto simp: wellFormed_def list_all_iff dest: map_of_SomeD)
  then show ?thesis by (cases v) simp_all
qed

lemma wellFormed_clockAt: "wellFormed c \<Longrightarrow> 0 \<le> clockAt c k"
  by (cases "map_of c k") (auto simp: clockAt_def dest: wellFormed_nonneg)

lemma wellFormed_own: "wellFormed c \<Longrightarrow> map_of c k = Some v \<Longrightarrow> v = Num (clockAt c k)"
  by (auto simp: clockAt_def dest: wellFormed_nonneg)

lemma map_of_merge:
  assumes "wellFormed a" "wellFormed b"
  shows "map_of (mergeVectorClocks a b) k =
     (if k \<in> agents a \<union> agents b then Some (Num (max (clockAt a k) (clockAt b k))) else None)"
proof -
  from wellFormed_parts[OF assms(2)] wellFormed_parts[OF assms(1)]
  have m: "map_of (mergeLoop a b) k =
     (case map_of b k of None \<Rightarrow> map_of a k
      | Some t \<Rightarrow> Some (Num (max (clockAt a k) (clockAt b k))))"
    by (intro map_of_mergeLoop) simp_all
  show ?thesis
  proof (cases "map_of b k")
    case None
    then have b0: "clockAt b k = 0" by (simp add: clockAt_def)
    show ?thesis
    proof (cases "map_of a k")
      case None
      with \<open>map_of b k = None\<close> show ?thesis
        by (simp add: mergeVectorClocks_def m agents_map_of)
    next
      case (Some v)
      with assms(1) have "v = Num (clockAt a k)" "0 \<le> clockAt a k"
        by (simp_all add: wellFormed_own wellFormed_clockAt)
      with Some \<open>map_of b k = None\<close> b0 show ?thesis
        by (simp add: mergeVectorClocks_def m agents_map_of)
    qed
  next
    case (Some y)
    then show ?thesis
      by (simp add: mergeVectorClocks_def m agents_map_of)
  qed
qed

lemma clockAt_merge:
  assumes "wellFormed a" "wellFormed b"
  shows "clockAt (mergeVectorClocks a b) k = max (clockAt a k) (clockAt b k)"
proof (cases "k \<in> agents a \<union> agents b")
  case True
  then show ?thesis by (simp add: clockAt_def[of "mergeVectorClocks a b"] map_of_merge[OF assms])
next
  case False
  then have "clockAt a k = 0" "clockAt b k = 0" by (simp_all add: clockAt_absent)
  with False show ?thesis by (simp add: clockAt_def[of "mergeVectorClocks a b"] map_of_merge[OF assms])
qed

lemma wellFormed_merge:
  assumes "wellFormed a" "wellFormed b"
  shows "wellFormed (mergeVectorClocks a b)"
proof -
  let ?m = "mergeVectorClocks a b"
  have d: "distinct (map fst ?m)"
    using assms(1) by (simp add: mergeVectorClocks_def distinct_mergeLoop wellFormed_def)
  have pk: "plainKeys ?m"
    using assms wellFormed_parts[of a] wellFormed_parts[of b]
    by (auto simp: plainKeys_iff agents_merge)
  have "isCount v" if "(k, v) \<in> set ?m" for k v
  proof -
    from that d have "map_of ?m k = Some v" by simp
    then have "v = Num (max (clockAt a k) (clockAt b k))"
      by (simp add: map_of_merge[OF assms] split: if_splits)
    moreover have "0 \<le> clockAt a k" using assms(1) by (rule wellFormed_clockAt)
    ultimately show ?thesis by simp
  qed
  then have "list_all (\<lambda>(k, v). isCount v) ?m" by (auto simp: list_all_iff)
  with d pk show ?thesis by (simp add: wellFormed_def)
qed

lemma merge_commute:
  assumes "wellFormed a" "wellFormed b"
  shows "sameClock (mergeVectorClocks a b) (mergeVectorClocks b a)"
  unfolding sameClock_def
  by (rule ext) (simp add: map_of_merge assms max.commute Un_commute)

lemma merge_assoc:
  assumes "wellFormed a" "wellFormed b" "wellFormed c"
  shows "sameClock (mergeVectorClocks (mergeVectorClocks a b) c)
                   (mergeVectorClocks a (mergeVectorClocks b c))"
proof -
  have pk: "plainKeys b" "plainKeys c" "plainKeys (mergeVectorClocks b c)"
    using wellFormed_parts[OF assms(2)] wellFormed_parts[OF assms(3)]
      wellFormed_parts[OF wellFormed_merge[OF assms(2) assms(3)]] by simp_all
  show ?thesis
    unfolding sameClock_def
    by (rule ext)
       (simp add: map_of_merge clockAt_merge agents_merge assms wellFormed_merge pk max.assoc Un_assoc)
qed

lemma mergeLoop_same:
  "(\<And>k t. (k, t) \<in> set es \<Longrightarrow> isNum t \<and> map_of r k = Some t) \<Longrightarrow> mergeLoop r es = r"
proof (induction es)
  case Nil
  show ?case by simp
next
  case (Cons e es)
  obtain k t where e: "e = (k, t)" by (cases e)
  with Cons.prems have m: "map_of r k = Some t" and "isNum t" by auto
  then obtain n where t: "t = Num n" by (auto simp: isNum_iff)
  have "orZero (jsGet r k) = Num n" using m t by (simp add: jsGet_def orZero_def)
  then have step: "jsAssign k (jsMax (orZero (jsGet r k)) t) r = r"
    using m t by (simp add: jsMax_Num jsAssign_own update_triv)
  have "mergeLoop r es = r"
    by (rule Cons.IH) (use Cons.prems in auto)
  with step show ?case by (simp add: e)
qed

lemma merge_idem: "distinct (map fst a) \<Longrightarrow> numeric a \<Longrightarrow> mergeVectorClocks a a = a"
  unfolding mergeVectorClocks_def
  by (rule mergeLoop_same) (auto simp: numeric_def list_all_iff)

subsection \<open>Incrementing\<close>

lemma addOne_safe: "- 9007199254740992 \<le> n \<Longrightarrow> n < 9007199254740992 \<Longrightarrow> addOne n = n + 1"
  by (simp add: addOne_def)

lemma map_of_increment_other:
  "k' \<noteq> k \<Longrightarrow> map_of (incrementVectorClock c k) k' = map_of c k'"
  by (simp add: incrementVectorClock_def update_conv')

lemma map_of_increment:
  "safeDimension c k \<Longrightarrow> map_of (incrementVectorClock c k) k = Some (Num (clockAt c k + 1))"
  by (auto simp: safeDimension_def incrementVectorClock_def update_conv' jsGet_def orZero_def
        clockAt_def isNum_iff addOne_safe split: option.splits)

lemma clockAt_increment:
  "safeDimension c k \<Longrightarrow>
   clockAt (incrementVectorClock c k) k' = (if k' = k then clockAt c k + 1 else clockAt c k')"
  by (simp add: clockAt_def[of "incrementVectorClock c k"] map_of_increment map_of_increment_other)
     (simp add: clockAt_def)

lemma agents_increment: "agents (incrementVectorClock c k) = insert k (agents c)"
  by (simp add: agents_def incrementVectorClock_def dom_update)

text \<open>A dimension that holds an integer is not lowered by a merge with integer clocks.\<close>

lemma mergeLoop_own_mono:
  assumes "map_of r k = Some (Num m)" "numeric es"
  shows "\<exists>m'. m \<le> m' \<and> map_of (mergeLoop r es) k = Some (Num m')"
  using assms
proof (induction es arbitrary: r m)
  case Nil
  then show ?case by auto
next
  case (Cons e es)
  obtain k' t where e: "e = (k', t)" by (cases e)
  from Cons.prems e obtain n where t: "t = Num n" and nu: "numeric es"
    by (auto simp: numeric_def isNum_iff)
  let ?r = "jsAssign k' (jsMax (orZero (jsGet r k')) t) r"
  have "\<exists>m1. m \<le> m1 \<and> map_of ?r k = Some (Num m1)"
  proof (cases "k' = k")
    case True
    have "orZero (jsGet r k) = Num m" using Cons.prems(1) by (simp add: jsGet_def orZero_def)
    then have "map_of ?r k = Some (Num (max m n))"
      using True Cons.prems(1) by (simp add: t jsMax_Num jsAssign_own update_conv')
    then show ?thesis by (intro exI[of _ "max m n"]) simp
  next
    case False
    then have "map_of ?r k = map_of r k" by (simp add: jsAssign_def update_conv')
    with Cons.prems(1) show ?thesis by auto
  qed
  then obtain m1 where m1: "m \<le> m1" "map_of ?r k = Some (Num m1)" by blast
  from Cons.IH[OF m1(2) nu] obtain m' where "m1 \<le> m'" "map_of (mergeLoop ?r es) k = Some (Num m')"
    by blast
  with m1(1) show ?case by (intro exI[of _ m']) (simp add: e)
qed


section \<open>Properties of the sync cycle\<close>

lemma resolveConflict_hub:
  "snd (resolveConflict env h u) =
     (case find (\<lambda>l. id_u l = id_u u) (changeLog h) of
        Some l \<Rightarrow> h | None \<Rightarrow> h\<lparr>nowCalls := Suc (nowCalls h)\<rparr>)"
  by (simp add: resolveConflict_def dateNow_def Let_def split: option.splits prod.splits)

lemma resolveConflict_remote:
  "remoteVersion (fst (resolveConflict env h u)) = u \<and> recordId (fst (resolveConflict env h u)) = id_u u"
  by (simp add: resolveConflict_def dateNow_def Let_def
           split: option.splits prod.splits ConflictResolutionStrategy.splits)

lemma processRemoteUpdate_conflict:
  assumes "compareVectorClocks (vectorClock h) (vectorClock_u u) = Concurrent"
  shows "\<exists>c h'. processRemoteUpdate env h u = (Some c, h')
     \<and> c = fst (resolveConflict env (emitEvent (ConflictDetected (id_u u) (vectorClock h) (vectorClock_u u)) h) u)
     \<and> vectorClock h' = vectorClock h \<and> applied h' = applied h
     \<and> config h' = config h \<and> connected h' = connected h
      \<and> changeLog h' = changeLog h \<and> stats h' = stats h
      \<and> syncDurations h' = syncDurations h \<and> lastSyncTime h' = lastSyncTime h
     \<and> emitted h' = emitted h @ [ConflictDetected (id_u u) (vectorClock h) (vectorClock_u u),
                                  ConflictResolved (id_u u) (resolution c)]"
proof -
  define h1 where "h1 = emitEvent (ConflictDetected (id_u u) (vectorClock h) (vectorClock_u u)) h"
  obtain c h2 where r: "resolveConflict env h1 u = (c, h2)" by (cases "resolveConflict env h1 u")
  have h2: "h2 = (case find (\<lambda>l. id_u l = id_u u) (changeLog h1) of
        Some l \<Rightarrow> h1 | None \<Rightarrow> h1\<lparr>nowCalls := Suc (nowCalls h1)\<rparr>)"
    using resolveConflict_hub[of env h1 u] r by simp
  have p: "processRemoteUpdate env h u = (Some c, emitEvent (ConflictResolved (id_u u) (resolution c)) h2)"
    using assms r by (simp add: processRemoteUpdate_def h1_def Let_def)
  show ?thesis
    unfolding p using r
    by (simp add: h2 h1_def[symmetric]) (simp add: h1_def emitEvent_def split: option.splits)
qed

lemma processRemoteUpdate_accept:
  assumes "compareVectorClocks (vectorClock h) (vectorClock_u u) \<noteq> Concurrent"
  shows "processRemoteUpdate env h u =
     (None, h\<lparr>applied := applied h @ [u],
              vectorClock := mergeVectorClocks (vectorClock h) (vectorClock_u u)\<rparr>)"
  using assms by (simp add: processRemoteUpdate_def applyUpdate_def Let_def)

lemma pullLoop_effect:
  "\<exists>cs' h'. pullLoop env us cs h = (cs', h')
     \<and> vectorClock h' = clockAfter (vectorClock h) us
     \<and> applied h' = applied h @ nonConflicting (vectorClock h) us
     \<and> map remoteVersion cs' = map remoteVersion cs @ conflicting (vectorClock h) us
     \<and> config h' = config h \<and> connected h' = connected h
     \<and> changeLog h' = changeLog h \<and> stats h' = stats h
     \<and> syncDurations h' = syncDurations h \<and> lastSyncTime h' = lastSyncTime h"
proof (induction us arbitrary: cs h)
  case Nil
  show ?case by simp
next
  case (Cons u us)
  show ?case
  proof (cases "compareVectorClocks (vectorClock h) (vectorClock_u u) = Concurrent")
    case True
    from processRemoteUpdate_conflict[OF True, of env] obtain c h1 where
      p: "processRemoteUpdate env h u = (Some c, h1)"
      and c: "c = fst (resolveConflict env (emitEvent (ConflictDetected (id_u u) (vectorClock h) (vectorClock_u u)) h) u)"
      and f: "vectorClock h1 = vectorClock h" "applied h1 = applied h"
        "config h1 = config h" "connected h1 = connected h" "changeLog h1 = changeLog h"
        "stats h1 = stats h" "syncDurations h1 = syncDurations h" "lastSyncTime h1 = lastSyncTime h"
      by blast
    have rv: "remoteVersion c = u" unfolding c by (simp add: resolveConflict_remote)
    from Cons.IH[of "cs @ [c]" h1] show ?thesis
      using True by (simp add: p f rv)
  next
    case False
    from Cons.IH[of cs "h\<lparr>applied := applied h @ [u],
              vectorClock := mergeVectorClocks (vectorClock h) (vectorClock_u u)\<rparr>"]
    show ?thesis using False by (simp add: processRemoteUpdate_accept[OF False])
  qed
qed


lemma sync_unfold:
  assumes "connected h"
  shows "sync env h =
   (case send env (syncPullMessage env h) of
      Inl err \<Rightarrow> (Inl err, emitEvent (SyncFailed (agentId (config h)) err) (atPull h))
    | Inr us \<Rightarrow>
       (let (conflicts, h3) = pullLoop env us [] (atPull h) in
        case pushLeg env (changeLog h3) h3 of
          (Inl err, h4) \<Rightarrow> (Inl err, emitEvent (SyncFailed (agentId (config h4)) err) h4)
        | (Inr _, h4) \<Rightarrow>
            (let (result, h5) = finishSync env (now env (nowCalls h)) us (changeLog h3) conflicts h4
             in (Inr result, h5))))"
proof (cases "send env (syncPullMessage env h)")
  case (Inl err)
  with assms show ?thesis
    by (simp add: sync_def syncTry_def dateNow_def Let_def syncPullMessage_def emitEvent_def
          atPull_def)
next
  case (Inr us)
  obtain cs h3 where pl: "pullLoop env us [] (atPull h) = (cs, h3)"
    by (cases "pullLoop env us [] (atPull h)")
  obtain r4 h4 where pu: "pushLeg env (changeLog h3) h3 = (r4, h4)"
    by (cases "pushLeg env (changeLog h3) h3")
  obtain r5 h5 where fi: "finishSync env (now env (nowCalls h)) us (changeLog h3) cs h4 = (r5, h5)"
    by (cases "finishSync env (now env (nowCalls h)) us (changeLog h3) cs h4")
  have body: "syncTry env (now env (nowCalls h))
       (emitEvent (SyncStarted (agentId (config h))) (h\<lparr>nowCalls := Suc (nowCalls h)\<rparr>)) =
     (case r4 of Inl err \<Rightarrow> (Inl err, h4) | Inr _ \<Rightarrow> (Inr r5, h5))"
    using Inr pl pu fi
    by (simp add: syncTry_def dateNow_def Let_def syncPullMessage_def emitEvent_def
          atPull_def getLocalChanges_def split: sum.splits)
  show ?thesis
    using assms
    by (simp add: sync_def dateNow_def Let_def body Inr pl pu fi split: sum.splits)
qed


lemma pushLeg_Inl:
  assumes "pushLeg env cl h = (Inl err, h4)"
  shows "cl \<noteq> [] \<and> h4 = h\<lparr>nowCalls := Suc (nowCalls h)\<rparr>
     \<and> send env \<lparr>type_m = Push, agentId_m = agentId (config h), tenantId_m = tenantId (config h),
          vectorClock_m = vectorClock h, timestamp_m = now env (nowCalls h), data_m = Some cl\<rparr> = Inl err"
  using assms by (auto simp: pushLeg_def dateNow_def Let_def split: if_splits sum.splits)

lemma pushLeg_Inr:
  assumes "pushLeg env cl h = (Inr x, h4)"
  shows "(cl = [] \<and> h4 = h) \<or>
     (cl \<noteq> [] \<and> h4 = h\<lparr>nowCalls := Suc (nowCalls h), changeLog := [], logRefs := []\<rparr>
      \<and> (\<exists>ans. send env \<lparr>type_m = Push, agentId_m = agentId (config h), tenantId_m = tenantId (config h),
          vectorClock_m = vectorClock h, timestamp_m = now env (nowCalls h), data_m = Some cl\<rparr> = Inr ans))"
  using assms
  by (auto simp: pushLeg_def dateNow_def clearLocalChanges_def Let_def split: if_splits sum.splits)

lemma finishSync_result:
  "fst (finishSync env st us cl cs h) =
     \<lparr>success = True, pullCount = length us, pushCount = length cl, conflictCount = length cs,
      resolvedConflicts = cs, durationMs = now env (nowCalls h) - st, vectorClock_r = vectorClock h\<rparr>"
  by (simp add: finishSync_def dateNow_def updateAvgDuration_def emitEvent_def Let_def)

lemma finishSync_hub:
  "changeLog (snd (finishSync env st us cl cs h)) = changeLog h
   \<and> vectorClock (snd (finishSync env st us cl cs h)) = vectorClock h
   \<and> applied (snd (finishSync env st us cl cs h)) = applied h
   \<and> totalSyncs (stats (snd (finishSync env st us cl cs h))) = totalSyncs (stats h) + 1"
  by (simp add: finishSync_def dateNow_def updateAvgDuration_def emitEvent_def Let_def)

text \<open>What a cycle on a connected hub returns, by the leg that fails.\<close>

lemma sync_cases:
  assumes c: "connected h"
  obtains
    (PullFailed) err where "send env (syncPullMessage env h) = Inl err"
      "sync env h = (Inl err, emitEvent (SyncFailed (agentId (config h)) err) (atPull h))"
  | (PushFailed) us cs h3 err where "send env (syncPullMessage env h) = Inr us"
      "pullLoop env us [] (atPull h) = (cs, h3)"
      "pushLeg env (changeLog h3) h3 = (Inl err, h3\<lparr>nowCalls := Suc (nowCalls h3)\<rparr>)"
      "sync env h = (Inl err, emitEvent (SyncFailed (agentId (config h)) err) (h3\<lparr>nowCalls := Suc (nowCalls h3)\<rparr>))"
  | (Completed) us cs h3 h4 where "send env (syncPullMessage env h) = Inr us"
      "pullLoop env us [] (atPull h) = (cs, h3)"
      "pushLeg env (changeLog h3) h3 = (Inr (), h4)"
      "sync env h = (Inr (fst (finishSync env (now env (nowCalls h)) us (changeLog h3) cs h4)),
                     snd (finishSync env (now env (nowCalls h)) us (changeLog h3) cs h4))"
proof (cases "send env (syncPullMessage env h)")
  case (Inl err)
  then show ?thesis using PullFailed sync_unfold[OF c, of env] by simp
next
  case (Inr us)
  obtain cs h3 where pl: "pullLoop env us [] (atPull h) = (cs, h3)"
    by (cases "pullLoop env us [] (atPull h)")
  from pullLoop_effect[of env us "[]" "atPull h"] pl have cfg: "config h3 = config h"
    by (simp add: atPull_def)
  obtain r4 h4 where pu: "pushLeg env (changeLog h3) h3 = (r4, h4)"
    by (cases "pushLeg env (changeLog h3) h3")
  show ?thesis
  proof (cases r4)
    case (Inl err)
    with pu pushLeg_Inl[of env "changeLog h3" h3 err h4]
    have h4: "h4 = h3\<lparr>nowCalls := Suc (nowCalls h3)\<rparr>" by simp
    show ?thesis
      using PushFailed[OF Inr pl] pu Inl h4 sync_unfold[OF c, of env] Inr pl cfg by simp
  next
    case (Inr x)
    show ?thesis
      using Completed[OF \<open>send env (syncPullMessage env h) = Inr us\<close> pl, of h4]
        pu Inr sync_unfold[OF c, of env] \<open>send env (syncPullMessage env h) = Inr us\<close> pl
      by (simp add: split_beta)
  qed
qed


lemma sync_applied:
  assumes "connected h"
  shows "applied (snd (sync env h)) =
     applied h @ nonConflicting (incrementVectorClock (vectorClock h) (agentId (config h)))
                                (pulledUpdates env h)"
  using assms
proof (cases rule: sync_cases[of h env])
  case (PullFailed e)
  then show ?thesis by (simp add: pulledUpdates_def emitEvent_def atPull_def)
next
  case (PushFailed us cs h3 e)
  from pullLoop_effect[of env us "[]" "atPull h"] PushFailed(2)
  show ?thesis using PushFailed by (simp add: pulledUpdates_def emitEvent_def atPull_def)
next
  case (Completed us cs h3 h4)
  from pushLeg_Inr[OF Completed(3)] have "applied h4 = applied h3" by auto
  with pullLoop_effect[of env us "[]" "atPull h"] Completed
  show ?thesis by (simp add: pulledUpdates_def atPull_def finishSync_hub)
qed

lemma sync_clock:
  assumes "connected h"
  shows "vectorClock (snd (sync env h)) =
     clockAfter (incrementVectorClock (vectorClock h) (agentId (config h))) (pulledUpdates env h)"
  using assms
proof (cases rule: sync_cases[of h env])
  case (PullFailed e)
  then show ?thesis by (simp add: pulledUpdates_def emitEvent_def atPull_def)
next
  case (PushFailed us cs h3 e)
  from pullLoop_effect[of env us "[]" "atPull h"] PushFailed(2)
  show ?thesis using PushFailed by (simp add: pulledUpdates_def emitEvent_def atPull_def)
next
  case (Completed us cs h3 h4)
  from pushLeg_Inr[OF Completed(3)] have "vectorClock h4 = vectorClock h3" by auto
  with pullLoop_effect[of env us "[]" "atPull h"] Completed
  show ?thesis by (simp add: pulledUpdates_def atPull_def finishSync_hub)
qed

lemma sync_conflicts:
  assumes "connected h" "fst (sync env h) = Inr r"
  shows "map remoteVersion (resolvedConflicts r) =
     conflicting (incrementVectorClock (vectorClock h) (agentId (config h))) (pulledUpdates env h)
   \<and> conflictCount r = length (resolvedConflicts r)
   \<and> pullCount r = length (pulledUpdates env h)
   \<and> pushCount r = length (changeLog h)
   \<and> changeLog (snd (sync env h)) = []"
  using assms(1)
proof (cases rule: sync_cases[of h env])
  case (PullFailed e)
  with assms(2) show ?thesis by simp
next
  case (PushFailed us cs h3 e)
  with assms(2) show ?thesis by simp
next
  case (Completed us cs h3 h4)
  from pullLoop_effect[of env us "[]" "atPull h"] Completed(2)
  have m: "map remoteVersion cs = conflicting (incrementVectorClock (vectorClock h) (agentId (config h))) us"
    and cl: "changeLog h3 = changeLog h"
    by (simp_all add: atPull_def)
  from pushLeg_Inr[OF Completed(3)] have "changeLog h4 = []" by auto
  with Completed assms(2) m cl show ?thesis
    by (auto simp: finishSync_result finishSync_hub pulledUpdates_def)
qed

lemma processRemoteUpdate_None:
  "(fst (processRemoteUpdate env h u) \<noteq> None) =
     (compareVectorClocks (vectorClock h) (vectorClock_u u) = Concurrent)"
proof (cases "compareVectorClocks (vectorClock h) (vectorClock_u u) = Concurrent")
  case True
  with processRemoteUpdate_conflict[OF True, of env] show ?thesis by auto
next
  case False
  then show ?thesis by (simp add: processRemoteUpdate_accept)
qed

lemma fresh_hub:
  "connected (connect env (createFederationHub cfg))
   \<and> changeLog (connect env (createFederationHub cfg)) = []
   \<and> vectorClock (connect env (createFederationHub cfg)) = jsAssign (agentId cfg) (Num 0) []
   \<and> agentId (config (connect env (createFederationHub cfg))) = agentId cfg"
  by (simp add: connect_def createFederationHub_def dateNow_def emitEvent_def Let_def)

lemma sync_empty_log_completes:
  assumes "connected h" "changeLog h = []" "send env (syncPullMessage env h) = Inr us"
  shows "\<exists>r. fst (sync env h) = Inr r"
  using assms(1)
proof (cases rule: sync_cases[of h env])
  case (PullFailed e)
  with assms(3) show ?thesis by simp
next
  case (PushFailed us' cs h3 e)
  from pullLoop_effect[of env us' "[]" "atPull h"] PushFailed(2)
  have "changeLog h3 = []" by (simp add: atPull_def assms(2))
  with pushLeg_Inl[OF PushFailed(3)] show ?thesis by simp
next
  case (Completed us' cs h3 h4)
  then show ?thesis by simp
qed

text \<open>The decision of resolveConflict, by strategy, on the change-log entry with the update's
  id (if there is one), and the reason it gives.\<close>

lemma resolveConflict_resolution:
  "resolution (fst (resolveConflict env h u)) =
     (case conflictResolution (config h) of
        Some LastWriteWins \<Rightarrow>
          (case find (\<lambda>l. id_u l = id_u u) (changeLog h) of
             None \<Rightarrow> if timestamp_u u > 0 then Remote else Local
           | Some l \<Rightarrow> if timestamp_u u > timestamp_u l then Remote else Local)
      | Some FirstWriteWins \<Rightarrow>
          (case find (\<lambda>l. id_u l = id_u u) (changeLog h) of
             None \<Rightarrow> Remote
           | Some l \<Rightarrow> if timestamp_u l = 0 \<or> timestamp_u u < timestamp_u l then Remote else Local)
      | Some MergeStrategy \<Rightarrow> Merge
      | Some Custom \<Rightarrow> Skip
      | None \<Rightarrow> Skip)"
proof (cases "find (\<lambda>l. id_u l = id_u u) (changeLog h)")
  case None
  then show ?thesis
    by (cases "conflictResolution (config h)")
       (auto simp: resolveConflict_def dateNow_def Let_def split: ConflictResolutionStrategy.splits)
next
  case (Some l)
  then show ?thesis
    by (cases "conflictResolution (config h)")
       (auto simp: resolveConflict_def dateNow_def Let_def split: ConflictResolutionStrategy.splits)
qed

lemma resolveConflict_reason:
  "reason (fst (resolveConflict env h u)) =
     (case (conflictResolution (config h), resolution (fst (resolveConflict env h u))) of
        (Some LastWriteWins, Remote) \<Rightarrow> ''Remote has newer timestamp''
      | (Some LastWriteWins, _) \<Rightarrow> ''Local has newer timestamp''
      | (Some FirstWriteWins, Remote) \<Rightarrow> ''Remote has older timestamp''
      | (Some FirstWriteWins, _) \<Rightarrow> ''Local has older timestamp''
      | (Some MergeStrategy, _) \<Rightarrow> ''Merged local and remote data''
      | _ \<Rightarrow> ''No resolution strategy'')"
proof (cases "find (\<lambda>l. id_u l = id_u u) (changeLog h)")
  case None
  then show ?thesis
    by (cases "conflictResolution (config h)")
       (auto simp: resolveConflict_def dateNow_def Let_def split: ConflictResolutionStrategy.splits)
next
  case (Some l)
  then show ?thesis
    by (cases "conflictResolution (config h)")
       (auto simp: resolveConflict_def dateNow_def Let_def split: ConflictResolutionStrategy.splits)
qed



lemma clockAfter_own_mono:
  assumes "map_of c k = Some (Num m)" "list_all (\<lambda>u. numeric (vectorClock_u u)) us"
  shows "\<exists>m'. m \<le> m' \<and> map_of (clockAfter c us) k = Some (Num m')"
  using assms
proof (induction us arbitrary: c m)
  case Nil
  then show ?case by auto
next
  case (Cons u us)
  let ?c = "if compareVectorClocks c (vectorClock_u u) = Concurrent then c
            else mergeVectorClocks c (vectorClock_u u)"
  from Cons.prems have nu: "numeric (vectorClock_u u)"
    and rest: "list_all (\<lambda>u. numeric (vectorClock_u u)) us" by simp_all
  have "\<exists>m1. m \<le> m1 \<and> map_of ?c k = Some (Num m1)"
  proof (cases "compareVectorClocks c (vectorClock_u u) = Concurrent")
    case True
    with Cons.prems(1) show ?thesis by auto
  next
    case False
    with mergeLoop_own_mono[OF Cons.prems(1) nu] show ?thesis
      by (simp add: mergeVectorClocks_def)
  qed
  then obtain m1 where m1: "m \<le> m1" "map_of ?c k = Some (Num m1)" by blast
  from Cons.IH[OF m1(2) rest] obtain m' where "m1 \<le> m'" "map_of (clockAfter ?c us) k = Some (Num m')"
    by blast
  with m1(1) show ?case by (intro exI[of _ m']) simp
qed

lemma restamp_fresh: "ref \<notin> set refs \<Longrightarrow> restamp ref s refs log = log"
  by (induction ref s refs log rule: restamp.induct) simp_all

lemma length_restamp: "length (restamp ref s refs log) = length log"
  by (induction ref s refs log rule: restamp.induct) simp_all

lemma addOne_ge: "n \<le> addOne n"
  by (simp add: addOne_def)

lemma increment_never_decreases:
  "clockAt clock k \<le> clockAt (incrementVectorClock clock aid) k"
proof (cases "k = aid")
  case False
  then show ?thesis by (simp add: clockAt_def map_of_increment_other)
next
  case True
  show ?thesis
  proof (cases "map_of clock aid")
    case None
    then show ?thesis
      by (simp add: True clockAt_def incrementVectorClock_def update_conv' jsGet_def orZero_def addOne_def)
  next
    case (Some v)
    then show ?thesis
      using addOne_ge
      by (cases v)
         (simp_all add: True clockAt_def incrementVectorClock_def update_conv' jsGet_def orZero_def addOne_def)
  qed
qed

lemma recordChange_unfold:
  "recordChange env ref u h =
      h\<lparr>nowCalls := Suc (nowCalls h),
        changeLog := restamp ref (u\<lparr>vectorClock_u := vectorClock h,
                                    timestamp_u := now env (nowCalls h)\<rparr>)
                       (logRefs h) (changeLog h)
                     @ [u\<lparr>vectorClock_u := vectorClock h, timestamp_u := now env (nowCalls h)\<rparr>],
        logRefs := logRefs h @ [ref],
        vectorClock := incrementVectorClock (vectorClock h) (agentId (config h))\<rparr>"
  by (simp add: recordChange_def dateNow_def Let_def)

section \<open>Theorems about the sync cycle\<close>

lemmas clock_defs = incrementVectorClock_def mergeVectorClocks_def compareVectorClocks_def
  newSet_def jsGet_def jsAssign_def orZero_def jsGreater_def jsMax_def addOne_def
  objectPrototypeNames_def memberText_def Let_def

lemmas hub_defs = sync_def syncTry_def pushLeg_def finishSync_def updateAvgDuration_def
  pullLoop.simps processRemoteUpdate_def resolveConflict_def recordChange_def connect_def
  createFederationHub_def dateNow_def emitEvent_def applyUpdate_def getLocalChanges_def
  clearLocalChanges_def incrementVectorClock_def mergeVectorClocks_def compareVectorClocks_def
  newSet_def initialStats_def forcePush_def forcePull_def syncPullMessage_def pulledUpdates_def
  sendSyncMessage_def Let_def jsGet_def jsAssign_def orZero_def jsGreater_def jsMax_def
  addOne_def objectPrototypeNames_def memberText_def

lemmas example_defs = hubA_def configA_def quietEnv_def pushFailsEnv_def pullFailsEnv_def
  pullReturnsEnv_def remoteB_def remoteAhead_def localChange_def
  epochEnv_def hubFirst_def hubMerge_def remoteC_def hubC_def remoteAB_def remoteBig_def
  hubBig_def

text \<open>
  C6. On a hub that is not connected, sync, forcePush and forcePull fail with the "not
  connected" error and return the hub state they were given: vector clock, change log,
  statistics, emitted events and every other field are unchanged.
\<close>

theorem sync_not_connected:
  assumes "\<not> connected h"
  shows "sync env h = (Inl notConnected, h)
    \<and> forcePush env updates h = (Inl notConnected, h)
    \<and> forcePull env h = (Inl notConnected, h)"
  using assms by (simp add: sync_def forcePush_def forcePull_def)

theorem sync_not_connected_witness:
  "\<not> connected (createFederationHub configA)
   \<and> sync quietEnv (createFederationHub configA) = (Inl notConnected, createFederationHub configA)
   \<and> forcePush quietEnv [localChange] (createFederationHub configA)
        = (Inl notConnected, createFederationHub configA)
   \<and> forcePull quietEnv (createFederationHub configA) = (Inl notConnected, createFederationHub configA)
   \<and> totalSyncs (stats (snd (sync quietEnv (createFederationHub configA)))) = 0
   \<and> emitted (snd (sync quietEnv (createFederationHub configA))) = []"
proof -
  have h: "\<not> connected (createFederationHub configA)"
    by (simp add: createFederationHub_def)
  from sync_not_connected[OF h, of quietEnv "[localChange]"] h show ?thesis
    by (simp add: createFederationHub_def initialStats_def)
qed



text \<open>
  C10. When sync on a connected hub fails, the vector clock is not rolled back: it is the
  clock incremented in the hub's own dimension and then merged with the pulled updates that
  were not concurrent (none when the pull itself failed), while the statistics and the change
  log are those before the call. If the own dimension could be incremented exactly (an integer
  of magnitude below 2^53, or absent under a name that Object.prototype does not have) and
  the pulled clocks hold integers, the own dimension has advanced by at least 1.
\<close>

theorem failed_sync_keeps_clock_advance:
  assumes "connected h" and "fst (sync env h) = Inl err"
  shows "vectorClock (snd (sync env h)) =
           clockAfter (incrementVectorClock (vectorClock h) (agentId (config h))) (pulledUpdates env h)
    \<and> stats (snd (sync env h)) = stats h
    \<and> changeLog (snd (sync env h)) = changeLog h
    \<and> (safeDimension (vectorClock h) (agentId (config h))
        \<and> list_all (\<lambda>u. numeric (vectorClock_u u)) (pulledUpdates env h) \<longrightarrow>
          clockAt (vectorClock h) (agentId (config h)) + 1
            \<le> clockAt (vectorClock (snd (sync env h))) (agentId (config h)))"
proof -
  let ?a = "agentId (config h)"
  let ?c = "incrementVectorClock (vectorClock h) ?a"
  have clock: "vectorClock (snd (sync env h)) = clockAfter ?c (pulledUpdates env h)"
    using assms(1) by (rule sync_clock)
  have frame: "stats (snd (sync env h)) = stats h \<and> changeLog (snd (sync env h)) = changeLog h"
    using assms(1)
  proof (cases rule: sync_cases[of h env])
    case (PullFailed e)
    then show ?thesis by (simp add: emitEvent_def atPull_def)
  next
    case (PushFailed us cs h3 e)
    from pullLoop_effect[of env us "[]" "atPull h"] PushFailed(2)
    have "stats h3 = stats h" "changeLog h3 = changeLog h"
      by (simp_all add: atPull_def)
    with PushFailed show ?thesis by (simp add: emitEvent_def)
  next
    case (Completed us cs h3 h4)
    with assms(2) show ?thesis by simp
  qed
  have adv: "clockAt (vectorClock h) ?a + 1 \<le> clockAt (clockAfter ?c (pulledUpdates env h)) ?a"
    if s: "safeDimension (vectorClock h) ?a"
      and n: "list_all (\<lambda>u. numeric (vectorClock_u u)) (pulledUpdates env h)"
  proof -
    from s have "map_of ?c ?a = Some (Num (clockAt (vectorClock h) ?a + 1))"
      by (rule map_of_increment)
    from clockAfter_own_mono[OF this n] show ?thesis
      by (auto simp: clockAt_def)
  qed
  from clock frame adv show ?thesis by simp
qed

theorem failed_sync_keeps_clock_advance_witness:
  "connected hubA
   \<and> fst (sync pullFailsEnv hubA) = Inl ''hub unreachable''
   \<and> safeDimension (vectorClock hubA) (agentId (config hubA))
   \<and> list_all (\<lambda>u. numeric (vectorClock_u u)) (pulledUpdates pullFailsEnv hubA)
   \<and> vectorClock hubA = [(''A'', Num 0)]
   \<and> vectorClock (snd (sync pullFailsEnv hubA)) = [(''A'', Num 1)]
   \<and> stats (snd (sync pullFailsEnv hubA)) = stats hubA
   \<and> connected (recordChange quietEnv 1 localChange hubC)
   \<and> fst (sync (pushFailsEnv [remoteAB]) (recordChange quietEnv 1 localChange hubC)) = Inl ''push failed''
   \<and> vectorClock (recordChange quietEnv 1 localChange hubC) = [(''A'', Num 2), (''C'', Num 0)]
   \<and> vectorClock (snd (sync (pushFailsEnv [remoteAB]) (recordChange quietEnv 1 localChange hubC)))
        = [(''A'', Num 3), (''C'', Num 0), (''B'', Num 1)]
   \<and> changeLog (snd (sync (pushFailsEnv [remoteAB]) (recordChange quietEnv 1 localChange hubC)))
        = changeLog (recordChange quietEnv 1 localChange hubC)
   \<and> clockAt (vectorClock (recordChange quietEnv 1 localChange hubC)) ''A'' + 1
        \<le> clockAt (vectorClock (snd (sync (pushFailsEnv [remoteAB])
                                    (recordChange quietEnv 1 localChange hubC)))) ''A''"
proof -
  let ?h = "recordChange quietEnv 1 localChange hubC"
  let ?e = "pushFailsEnv [remoteAB]"
  have c: "connected hubA" "connected ?h"
    by (simp_all add: hub_defs example_defs)
  have f: "fst (sync pullFailsEnv hubA) = Inl ''hub unreachable''"
    by (simp add: hub_defs example_defs)
  have g: "fst (sync ?e ?h) = Inl ''push failed''"
    by (simp add: hub_defs example_defs)
  have v: "vectorClock hubA = [(''A'', Num 0)]" "vectorClock ?h = [(''A'', Num 2), (''C'', Num 0)]"
      "agentId (config hubA) = ''A''" "agentId (config ?h) = ''A''"
    by (simp_all add: hub_defs example_defs)
  have p: "pulledUpdates pullFailsEnv hubA = []" "pulledUpdates ?e ?h = [remoteAB]"
    by (simp_all add: pulledUpdates_def syncPullMessage_def pushFailsEnv_def pullFailsEnv_def)
  have s: "safeDimension (vectorClock hubA) (agentId (config hubA))"
      "safeDimension (vectorClock ?h) (agentId (config ?h))"
    unfolding v by (simp_all add: safeDimension_def clockAt_def)
  have n: "list_all (\<lambda>u. numeric (vectorClock_u u)) (pulledUpdates pullFailsEnv hubA)"
      "list_all (\<lambda>u. numeric (vectorClock_u u)) (pulledUpdates ?e ?h)"
    unfolding p by (simp_all add: numeric_def remoteAB_def)
  have k1: "clockAfter (incrementVectorClock (vectorClock hubA) (agentId (config hubA)))
               (pulledUpdates pullFailsEnv hubA) = [(''A'', Num 1)]"
    unfolding v p by (simp add: hub_defs)
  have k2: "clockAfter (incrementVectorClock (vectorClock ?h) ''A'')
               (pulledUpdates ?e ?h) = [(''A'', Num 3), (''C'', Num 0), (''B'', Num 1)]"
    unfolding v p by (simp add: hub_defs remoteAB_def)
  have r1: "vectorClock (snd (sync pullFailsEnv hubA)) = [(''A'', Num 1)]
      \<and> stats (snd (sync pullFailsEnv hubA)) = stats hubA"
    using failed_sync_keeps_clock_advance[OF c(1) f] unfolding k1 by blast
  have r2: "vectorClock (snd (sync ?e ?h)) = [(''A'', Num 3), (''C'', Num 0), (''B'', Num 1)]
      \<and> changeLog (snd (sync ?e ?h)) = changeLog ?h
      \<and> clockAt (vectorClock ?h) ''A'' + 1 \<le> clockAt (vectorClock (snd (sync ?e ?h))) ''A''"
    using failed_sync_keeps_clock_advance[OF c(2) g] s(2) n(2) unfolding v(4) k2 by blast
  from c f g v r1 r2 s(1) n(1) show ?thesis by blast
qed

theorem failed_sync_at_2_53_does_not_advance:
  "connected hubBig
   \<and> agentId (config hubBig) = ''A''
   \<and> vectorClock hubBig = [(''A'', Num 9007199254740992)]
   \<and> fst (sync pullFailsEnv hubBig) = Inl ''hub unreachable''
   \<and> vectorClock (snd (sync pullFailsEnv hubBig)) = [(''A'', Num 9007199254740992)]
   \<and> clockAt (vectorClock (snd (sync pullFailsEnv hubBig))) ''A''
        = clockAt (vectorClock hubBig) ''A''"
  by (simp add: hub_defs example_defs clockAt_def)

text \<open>
  C2. processRemoteUpdate reports a conflict exactly when comparing the hub's clock with the
  update's clock gives \<open>Concurrent\<close>; any other update is handed to applyUpdate and merged into
  the hub's clock: for clocks of the data model none of whose keys Object.prototype has, the
  hub's clock then has the keys of both clocks and under each key the maximum of the two
  values, an absent key counting as 0. A successful sync reports as conflicts exactly the pulled updates that were
  concurrent with the clock they met, applies the others in order and ends with the clock
  merged from them. For a hub of agent A that has just been constructed and connected, whose
  pull returns one update with clock {A:0, B:1}: the clock compared is {A:1}, the comparison
  is \<open>Concurrent\<close>, the sync succeeds and its conflictCount is 1.
\<close>

theorem remote_update_conflict_iff_concurrent:
  "(fst (processRemoteUpdate env h u) \<noteq> None) =
       (compareVectorClocks (vectorClock h) (vectorClock_u u) = Concurrent)
   \<and> (compareVectorClocks (vectorClock h) (vectorClock_u u) \<noteq> Concurrent \<longrightarrow>
        processRemoteUpdate env h u =
          (None, h\<lparr>applied := applied h @ [u],
                   vectorClock := mergeVectorClocks (vectorClock h) (vectorClock_u u)\<rparr>))
   \<and> (compareVectorClocks (vectorClock h) (vectorClock_u u) \<noteq> Concurrent
        \<and> wellFormed (vectorClock h) \<and> wellFormed (vectorClock_u u) \<longrightarrow>
        agents (vectorClock (snd (processRemoteUpdate env h u)))
          = agents (vectorClock h) \<union> agents (vectorClock_u u)
        \<and> wellFormed (vectorClock (snd (processRemoteUpdate env h u)))
        \<and> (\<forall>k. clockAt (vectorClock (snd (processRemoteUpdate env h u))) k
                = max (clockAt (vectorClock h) k) (clockAt (vectorClock_u u) k)))
   \<and> (connected h \<and> fst (sync env h) = Inr r \<longrightarrow>
        map remoteVersion (resolvedConflicts r) =
          conflicting (incrementVectorClock (vectorClock h) (agentId (config h))) (pulledUpdates env h)
        \<and> conflictCount r = length (resolvedConflicts r)
        \<and> applied (snd (sync env h)) =
            applied h @ nonConflicting (incrementVectorClock (vectorClock h) (agentId (config h)))
                                       (pulledUpdates env h)
        \<and> vectorClock (snd (sync env h)) =
            clockAfter (incrementVectorClock (vectorClock h) (agentId (config h)))
                       (pulledUpdates env h))
   \<and> (agentId cfg = ''A'' \<and> vectorClock_u u = [(''A'', Num 0), (''B'', Num 1)]
        \<and> send env (syncPullMessage env (connect env (createFederationHub cfg))) = Inr [u] \<longrightarrow>
        vectorClock_m (syncPullMessage env (connect env (createFederationHub cfg))) = [(''A'', Num 1)]
        \<and> compareVectorClocks [(''A'', Num 1)] (vectorClock_u u) = Concurrent
        \<and> (\<exists>res. fst (sync env (connect env (createFederationHub cfg))) = Inr res
                 \<and> conflictCount res = 1
                 \<and> map remoteVersion (resolvedConflicts res) = [u]))"
proof (intro conjI impI)
  show "(fst (processRemoteUpdate env h u) \<noteq> None) =
       (compareVectorClocks (vectorClock h) (vectorClock_u u) = Concurrent)"
    by (rule processRemoteUpdate_None)
next
  assume "compareVectorClocks (vectorClock h) (vectorClock_u u) \<noteq> Concurrent"
  then show "processRemoteUpdate env h u =
          (None, h\<lparr>applied := applied h @ [u],
                   vectorClock := mergeVectorClocks (vectorClock h) (vectorClock_u u)\<rparr>)"
    by (rule processRemoteUpdate_accept)
next
  assume a: "compareVectorClocks (vectorClock h) (vectorClock_u u) \<noteq> Concurrent
        \<and> wellFormed (vectorClock h) \<and> wellFormed (vectorClock_u u)"
  then have p: "vectorClock (snd (processRemoteUpdate env h u))
      = mergeVectorClocks (vectorClock h) (vectorClock_u u)"
    by (simp add: processRemoteUpdate_accept)
  from a have pk: "plainKeys (vectorClock_u u)" by (simp add: wellFormed_parts)
  from pk show "agents (vectorClock (snd (processRemoteUpdate env h u)))
          = agents (vectorClock h) \<union> agents (vectorClock_u u)"
    unfolding p by (rule agents_merge)
  from a show "wellFormed (vectorClock (snd (processRemoteUpdate env h u)))"
    unfolding p by (simp add: wellFormed_merge)
  from a show "\<forall>k. clockAt (vectorClock (snd (processRemoteUpdate env h u))) k
                = max (clockAt (vectorClock h) k) (clockAt (vectorClock_u u) k)"
    unfolding p by (simp add: clockAt_merge)
next
  assume a: "connected h \<and> fst (sync env h) = Inr r"
  then show "map remoteVersion (resolvedConflicts r) =
          conflicting (incrementVectorClock (vectorClock h) (agentId (config h))) (pulledUpdates env h)"
    and "conflictCount r = length (resolvedConflicts r)"
    using sync_conflicts[of h env r] by simp_all
  from a show "applied (snd (sync env h)) =
            applied h @ nonConflicting (incrementVectorClock (vectorClock h) (agentId (config h)))
                                       (pulledUpdates env h)"
    by (simp add: sync_applied)
  from a show "vectorClock (snd (sync env h)) =
            clockAfter (incrementVectorClock (vectorClock h) (agentId (config h)))
                       (pulledUpdates env h)"
    using sync_clock[of h env] by simp
next
  let ?h = "connect env (createFederationHub cfg)"
  assume a: "agentId cfg = ''A'' \<and> vectorClock_u u = [(''A'', Num 0), (''B'', Num 1)]
        \<and> send env (syncPullMessage env ?h) = Inr [u]"
  have f: "connected ?h" "changeLog ?h = []" "vectorClock ?h = [(''A'', Num 0)]"
      "agentId (config ?h) = ''A''"
  proof -
    from a have "agentId cfg = ''A''" by simp
    then have "jsAssign (agentId cfg) (Num 0) [] = [(''A'', Num 0)]"
      by (simp add: jsAssign_def)
    with fresh_hub[of env cfg] a
    show "connected ?h" "changeLog ?h = []" "vectorClock ?h = [(''A'', Num 0)]"
      "agentId (config ?h) = ''A''"
      by simp_all
  qed
  show m: "vectorClock_m (syncPullMessage env ?h) = [(''A'', Num 1)]"
    by (simp add: syncPullMessage_def f clock_defs)
  show c: "compareVectorClocks [(''A'', Num 1)] (vectorClock_u u) = Concurrent"
    using a by (simp add: clock_defs)
  from a have pu: "pulledUpdates env ?h = [u]" by (simp add: pulledUpdates_def)
  from sync_empty_log_completes[OF f(1) f(2), of env "[u]"] a
  obtain res where res: "fst (sync env ?h) = Inr res" by blast
  from sync_conflicts[OF f(1) res] c
  have "map remoteVersion (resolvedConflicts res) = [u]" "conflictCount res = length (resolvedConflicts res)"
    by (simp_all add: pu f clock_defs)
  then have "conflictCount res = 1 \<and> map remoteVersion (resolvedConflicts res) = [u]"
    by (metis length_map length_Cons list.size(3) One_nat_def)
  with res show "\<exists>res. fst (sync env ?h) = Inr res \<and> conflictCount res = 1
                 \<and> map remoteVersion (resolvedConflicts res) = [u]"
    by (intro exI[of _ res]) simp
qed

theorem remote_update_conflict_iff_concurrent_witness:
  "agentId configA = ''A''
   \<and> vectorClock_u remoteB = [(''A'', Num 0), (''B'', Num 1)]
   \<and> send (pullReturnsEnv [remoteB])
        (syncPullMessage (pullReturnsEnv [remoteB])
           (connect (pullReturnsEnv [remoteB]) (createFederationHub configA))) = Inr [remoteB]
   \<and> changeLog (connect (pullReturnsEnv [remoteB]) (createFederationHub configA)) = []
   \<and> compareVectorClocks [(''A'', Num 1)] (vectorClock_u remoteB) = Concurrent
   \<and> (\<exists>res. fst (sync (pullReturnsEnv [remoteB])
                    (connect (pullReturnsEnv [remoteB]) (createFederationHub configA))) = Inr res
            \<and> conflictCount res = 1
            \<and> map remoteVersion (resolvedConflicts res) = [remoteB])
   \<and> vectorClock (atPull hubC) = [(''A'', Num 2), (''C'', Num 0)]
   \<and> vectorClock_u remoteAB = [(''A'', Num 3), (''B'', Num 1)]
   \<and> wellFormed (vectorClock (atPull hubC)) \<and> wellFormed (vectorClock_u remoteAB)
   \<and> compareVectorClocks (vectorClock (atPull hubC)) (vectorClock_u remoteAB) = Before
   \<and> fst (processRemoteUpdate quietEnv (atPull hubC) remoteAB) = None
   \<and> applied (snd (processRemoteUpdate quietEnv (atPull hubC) remoteAB))
        = applied (atPull hubC) @ [remoteAB]
   \<and> vectorClock (snd (processRemoteUpdate quietEnv (atPull hubC) remoteAB))
        = [(''A'', Num 3), (''C'', Num 0), (''B'', Num 1)]
   \<and> agents (vectorClock (snd (processRemoteUpdate quietEnv (atPull hubC) remoteAB)))
        = {''A'', ''B'', ''C''}
   \<and> clockAt (vectorClock (snd (processRemoteUpdate quietEnv (atPull hubC) remoteAB))) ''A'' = 3"
proof -
  let ?e = "pullReturnsEnv [remoteB]"
  let ?h = "connect ?e (createFederationHub configA)"
  have a: "agentId configA = ''A''" "vectorClock_u remoteB = [(''A'', Num 0), (''B'', Num 1)]"
    by (simp_all add: example_defs)
  have p: "send ?e (syncPullMessage ?e ?h) = Inr [remoteB]"
    by (simp add: pullReturnsEnv_def syncPullMessage_def)
  have l: "changeLog ?h = []"
    by (simp add: hub_defs example_defs)
  from remote_update_conflict_iff_concurrent[where cfg = configA and u = remoteB and env = ?e] a p
  have r1: "compareVectorClocks [(''A'', Num 1)] (vectorClock_u remoteB) = Concurrent
     \<and> (\<exists>res. fst (sync ?e ?h) = Inr res \<and> conflictCount res = 1
            \<and> map remoteVersion (resolvedConflicts res) = [remoteB])"
    by blast
  have v: "vectorClock (atPull hubC) = [(''A'', Num 2), (''C'', Num 0)]"
      "vectorClock_u remoteAB = [(''A'', Num 3), (''B'', Num 1)]"
    by (simp_all add: atPull_def hub_defs example_defs)
  have w: "wellFormed (vectorClock (atPull hubC))" "wellFormed (vectorClock_u remoteAB)"
    unfolding v by (simp_all add: wellFormed_def plainKeys_def objectPrototypeNames_def)
  have b: "compareVectorClocks (vectorClock (atPull hubC)) (vectorClock_u remoteAB) = Before"
    unfolding v by (simp add: hub_defs)
  then have n: "compareVectorClocks (vectorClock (atPull hubC)) (vectorClock_u remoteAB) \<noteq> Concurrent"
    by simp
  have m: "mergeVectorClocks [(''A'', Num 2), (''C'', Num 0)] [(''A'', Num 3), (''B'', Num 1)]
       = [(''A'', Num 3), (''C'', Num 0), (''B'', Num 1)]"
    by (simp add: hub_defs)
  note t = remote_update_conflict_iff_concurrent[where h = "atPull hubC" and u = remoteAB
      and env = quietEnv]
  from t n have "processRemoteUpdate quietEnv (atPull hubC) remoteAB =
      (None, (atPull hubC)\<lparr>applied := applied (atPull hubC) @ [remoteAB],
          vectorClock := mergeVectorClocks (vectorClock (atPull hubC)) (vectorClock_u remoteAB)\<rparr>)"
    by blast
  then have r2: "fst (processRemoteUpdate quietEnv (atPull hubC) remoteAB) = None
     \<and> applied (snd (processRemoteUpdate quietEnv (atPull hubC) remoteAB))
          = applied (atPull hubC) @ [remoteAB]
     \<and> vectorClock (snd (processRemoteUpdate quietEnv (atPull hubC) remoteAB))
          = [(''A'', Num 3), (''C'', Num 0), (''B'', Num 1)]"
    by (simp add: v m)
  from t n w have "agents (vectorClock (snd (processRemoteUpdate quietEnv (atPull hubC) remoteAB)))
          = agents (vectorClock (atPull hubC)) \<union> agents (vectorClock_u remoteAB)
     \<and> (\<forall>k. clockAt (vectorClock (snd (processRemoteUpdate quietEnv (atPull hubC) remoteAB))) k
            = max (clockAt (vectorClock (atPull hubC)) k) (clockAt (vectorClock_u remoteAB) k))"
    by blast
  then have r3: "agents (vectorClock (snd (processRemoteUpdate quietEnv (atPull hubC) remoteAB)))
          = {''A'', ''B'', ''C''}
     \<and> clockAt (vectorClock (snd (processRemoteUpdate quietEnv (atPull hubC) remoteAB))) ''A'' = 3"
    unfolding v by (auto simp: agents_def clockAt_def)
  from a p l r1 v w b r2 r3 show ?thesis by blast
qed

text \<open>
  C5. recordChange stamps the caller's update object with the hub's clock and the current time
  (entries of the change log that are the same object show the new stamp too; if the object
  is not yet in the log, the log is unchanged up to its new last entry), appends it to the
  change log and then increments the hub's own dimension, the stamp being the clock before the
  increment: where that dimension holds an integer of magnitude below 2^53, or is absent under
  a name that Object.prototype does not have, it is 1 more afterwards and every other key is
  as before. On a connected hub with an empty change log and a transport that returns no
  update, recordChange followed by sync succeeds with pushCount 1 and leaves the change log
  empty.
\<close>

theorem recordChange_stamps_appends_increments:
  "recordChange env ref u h =
      h\<lparr>nowCalls := Suc (nowCalls h),
        changeLog := restamp ref (u\<lparr>vectorClock_u := vectorClock h,
                                    timestamp_u := now env (nowCalls h)\<rparr>)
                       (logRefs h) (changeLog h)
                     @ [u\<lparr>vectorClock_u := vectorClock h, timestamp_u := now env (nowCalls h)\<rparr>],
        logRefs := logRefs h @ [ref],
        vectorClock := incrementVectorClock (vectorClock h) (agentId (config h))\<rparr>
   \<and> (ref \<notin> set (logRefs h) \<longrightarrow>
        changeLog (recordChange env ref u h) =
          changeLog h @ [u\<lparr>vectorClock_u := vectorClock h, timestamp_u := now env (nowCalls h)\<rparr>])
   \<and> (safeDimension (vectorClock h) (agentId (config h)) \<longrightarrow>
        clockAt (vectorClock (recordChange env ref u h)) (agentId (config h))
          = clockAt (vectorClock h) (agentId (config h)) + 1
        \<and> (\<forall>k. k \<noteq> agentId (config h) \<longrightarrow>
              map_of (vectorClock (recordChange env ref u h)) k = map_of (vectorClock h) k))
   \<and> (connected h \<and> changeLog h = [] \<and> (\<forall>m. send env m = Inr []) \<longrightarrow>
        (\<exists>r. fst (sync env (recordChange env ref u h)) = Inr r
            \<and> pushCount r = 1
            \<and> changeLog (snd (sync env (recordChange env ref u h))) = []))"
proof (intro conjI impI)
  show "recordChange env ref u h =
      h\<lparr>nowCalls := Suc (nowCalls h),
        changeLog := restamp ref (u\<lparr>vectorClock_u := vectorClock h,
                                    timestamp_u := now env (nowCalls h)\<rparr>)
                       (logRefs h) (changeLog h)
                     @ [u\<lparr>vectorClock_u := vectorClock h, timestamp_u := now env (nowCalls h)\<rparr>],
        logRefs := logRefs h @ [ref],
        vectorClock := incrementVectorClock (vectorClock h) (agentId (config h))\<rparr>"
    by (rule recordChange_unfold)
next
  assume "ref \<notin> set (logRefs h)"
  then show "changeLog (recordChange env ref u h) =
          changeLog h @ [u\<lparr>vectorClock_u := vectorClock h, timestamp_u := now env (nowCalls h)\<rparr>]"
    by (simp add: recordChange_unfold restamp_fresh)
next
  assume s: "safeDimension (vectorClock h) (agentId (config h))"
  then show "clockAt (vectorClock (recordChange env ref u h)) (agentId (config h))
          = clockAt (vectorClock h) (agentId (config h)) + 1"
    by (simp add: recordChange_unfold clockAt_increment)
  show "\<forall>k. k \<noteq> agentId (config h) \<longrightarrow>
              map_of (vectorClock (recordChange env ref u h)) k = map_of (vectorClock h) k"
    by (simp add: recordChange_unfold map_of_increment_other)
next
  assume a: "connected h \<and> changeLog h = [] \<and> (\<forall>m. send env m = Inr [])"
  let ?h = "recordChange env ref u h"
  have c: "connected ?h" and l: "length (changeLog ?h) = 1"
    using a by (simp_all add: recordChange_unfold length_restamp)
  from c show "\<exists>r. fst (sync env ?h) = Inr r \<and> pushCount r = 1 \<and> changeLog (snd (sync env ?h)) = []"
  proof (cases rule: sync_cases[of ?h env])
    case (PullFailed e)
    with a show ?thesis by simp
  next
    case (PushFailed us cs h3 e)
    from pushLeg_Inl[OF PushFailed(3)] a show ?thesis by simp
  next
    case (Completed us cs h3 h4)
    then have "fst (sync env ?h) = Inr (fst (finishSync env (now env (nowCalls ?h)) us (changeLog h3) cs h4))"
      by simp
    from sync_conflicts[OF c this] l show ?thesis
      using \<open>fst (sync env ?h) = Inr _\<close> by simp
  qed
qed

theorem recordChange_stamps_appends_increments_witness:
  "connected hubC \<and> changeLog hubC = [] \<and> (\<forall>m. send quietEnv m = Inr [])
   \<and> 1 \<notin> set (logRefs hubC)
   \<and> safeDimension (vectorClock hubC) (agentId (config hubC))
   \<and> vectorClock hubC = [(''A'', Num 1), (''C'', Num 0)]
   \<and> changeLog (recordChange quietEnv 1 localChange hubC)
        = [localChange\<lparr>vectorClock_u := [(''A'', Num 1), (''C'', Num 0)], timestamp_u := 1005\<rparr>]
   \<and> vectorClock (recordChange quietEnv 1 localChange hubC) = [(''A'', Num 2), (''C'', Num 0)]
   \<and> clockAt (vectorClock (recordChange quietEnv 1 localChange hubC)) ''A''
        = clockAt (vectorClock hubC) ''A'' + 1
   \<and> (\<exists>r. fst (sync quietEnv (recordChange quietEnv 1 localChange hubC)) = Inr r
          \<and> pushCount r = 1
          \<and> changeLog (snd (sync quietEnv (recordChange quietEnv 1 localChange hubC))) = [])
   \<and> map timestamp_u (changeLog (recordChange quietEnv 1 localChange
                                     (recordChange quietEnv 1 localChange hubC))) = [1006, 1006]
   \<and> map timestamp_u (changeLog (recordChange quietEnv 2 localChange
                                     (recordChange quietEnv 1 localChange hubC))) = [1005, 1006]"
proof -
  have c: "connected hubC" "changeLog hubC = []" "vectorClock hubC = [(''A'', Num 1), (''C'', Num 0)]"
      "nowCalls hubC = 5" "agentId (config hubC) = ''A''" "logRefs hubC = []"
    by (simp_all add: hub_defs example_defs)
  have q: "\<forall>m. send quietEnv m = Inr []"
    by (simp add: quietEnv_def sendSyncMessage_def)
  have n: "now quietEnv 5 = 1005" "now quietEnv 6 = 1006"
    by (simp_all add: quietEnv_def)
  have f: "1 \<notin> set (logRefs hubC)" by (simp add: c)
  have s: "safeDimension (vectorClock hubC) (agentId (config hubC))"
    by (simp add: c safeDimension_def clockAt_def)
  note t = recordChange_stamps_appends_increments[of quietEnv 1 localChange hubC]
  from t f have "changeLog (recordChange quietEnv 1 localChange hubC) =
          changeLog hubC @ [localChange\<lparr>vectorClock_u := vectorClock hubC,
                                        timestamp_u := now quietEnv (nowCalls hubC)\<rparr>]"
    by blast
  then have r1: "changeLog (recordChange quietEnv 1 localChange hubC)
        = [localChange\<lparr>vectorClock_u := [(''A'', Num 1), (''C'', Num 0)], timestamp_u := 1005\<rparr>]"
    by (simp add: c n)
  from t s have r2: "clockAt (vectorClock (recordChange quietEnv 1 localChange hubC)) ''A''
        = clockAt (vectorClock hubC) ''A'' + 1"
    unfolding c(5) by blast
  from t c q have r3: "\<exists>r. fst (sync quietEnv (recordChange quietEnv 1 localChange hubC)) = Inr r
          \<and> pushCount r = 1
          \<and> changeLog (snd (sync quietEnv (recordChange quietEnv 1 localChange hubC))) = []"
    by blast
  have r4: "vectorClock (recordChange quietEnv 1 localChange hubC) = [(''A'', Num 2), (''C'', Num 0)]"
    by (simp add: recordChange_unfold c hub_defs)
  have r5: "map timestamp_u (changeLog (recordChange quietEnv 1 localChange
                                     (recordChange quietEnv 1 localChange hubC))) = [1006, 1006]"
      "map timestamp_u (changeLog (recordChange quietEnv 2 localChange
                                     (recordChange quietEnv 1 localChange hubC))) = [1005, 1006]"
    by (simp_all add: recordChange_unfold c n)
  from c(1,2,3) q f s r1 r2 r3 r4 r5 show ?thesis by blast
qed

theorem recordChange_at_2_53_does_not_increment:
  "agentId (config hubBig) = ''A''
   \<and> vectorClock hubBig = [(''A'', Num 9007199254740992)]
   \<and> vectorClock (recordChange quietEnv 1 localChange hubBig) = [(''A'', Num 9007199254740992)]
   \<and> clockAt (vectorClock (recordChange quietEnv 1 localChange hubBig)) ''A''
        = clockAt (vectorClock hubBig) ''A''"
  by (simp add: hub_defs example_defs clockAt_def)

section \<open>Theorems about the vector clock algebra\<close>

text \<open>
  C9. If the dimension \<open>aid\<close> of the clock holds an integer of magnitude below 2^53, or is
  absent under a name that Object.prototype does not have, then incrementVectorClock clock aid
  has under \<open>aid\<close> the value of \<open>clock\<close> there plus 1 (an absent key counting as 0). If it
  holds an integer of any magnitude, or is absent under such a name, no dimension has
  decreased. For every clock and every \<open>aid\<close> every other key is as it was and at most the
  key \<open>aid\<close> is added.
\<close>

theorem incrementVectorClock_safe_dimension:
  "(safeDimension clock aid \<longrightarrow>
       clockAt (incrementVectorClock clock aid) aid = clockAt clock aid + 1
     \<and> map_of (incrementVectorClock clock aid) aid = Some (Num (clockAt clock aid + 1)))
   \<and> (readsNumber clock aid \<longrightarrow>
       (\<forall>k. clockAt clock k \<le> clockAt (incrementVectorClock clock aid) k))
   \<and> (\<forall>k. k \<noteq> aid \<longrightarrow> map_of (incrementVectorClock clock aid) k = map_of clock k)
   \<and> agents (incrementVectorClock clock aid) = insert aid (agents clock)"
  by (simp add: clockAt_increment map_of_increment map_of_increment_other agents_increment
        increment_never_decreases)

theorem incrementVectorClock_safe_dimension_witness:
  "safeDimension [(''A'', Num 1), (''B'', Num 4)] ''A''
   \<and> incrementVectorClock [(''A'', Num 1), (''B'', Num 4)] ''A'' = [(''A'', Num 2), (''B'', Num 4)]
   \<and> safeDimension [(''B'', Num 4)] ''A''
   \<and> incrementVectorClock [(''B'', Num 4)] ''A'' = [(''B'', Num 4), (''A'', Num 1)]
   \<and> clockAt (incrementVectorClock [(''B'', Num 4)] ''A'') ''A'' = clockAt [(''B'', Num 4)] ''A'' + 1
   \<and> ''B'' \<noteq> ''A''
   \<and> map_of (incrementVectorClock [(''B'', Num 4)] ''A'') ''B'' = map_of [(''B'', Num 4)] ''B''
   \<and> safeDimension [(''A'', Num 9007199254740991)] ''A''
   \<and> clockAt (incrementVectorClock [(''A'', Num 9007199254740991)] ''A'') ''A'' = 9007199254740992
   \<and> readsNumber [(''A'', Num 9007199254740994)] ''A''
   \<and> clockAt [(''A'', Num 9007199254740994)] ''A''
        \<le> clockAt (incrementVectorClock [(''A'', Num 9007199254740994)] ''A'') ''A''"
proof -
  have s: "safeDimension [(''A'', Num 1), (''B'', Num 4)] ''A''" "safeDimension [(''B'', Num 4)] ''A''"
      "safeDimension [(''A'', Num 9007199254740991)] ''A''"
    by (simp_all add: safeDimension_def clockAt_def objectPrototypeNames_def)
  have e: "incrementVectorClock [(''A'', Num 1), (''B'', Num 4)] ''A'' = [(''A'', Num 2), (''B'', Num 4)]"
      "incrementVectorClock [(''B'', Num 4)] ''A'' = [(''B'', Num 4), (''A'', Num 1)]"
    by (simp_all add: hub_defs)
  have c: "clockAt [(''B'', Num 4)] ''A'' = 0" "clockAt [(''A'', Num 9007199254740991)] ''A'' = 9007199254740991"
    by (simp_all add: clockAt_def)
  from incrementVectorClock_safe_dimension[of "[(''B'', Num 4)]" "''A''"] s(2)
  have r1: "clockAt (incrementVectorClock [(''B'', Num 4)] ''A'') ''A'' = clockAt [(''B'', Num 4)] ''A'' + 1
      \<and> map_of (incrementVectorClock [(''B'', Num 4)] ''A'') ''B'' = map_of [(''B'', Num 4)] ''B''"
    by simp
  from incrementVectorClock_safe_dimension[of "[(''A'', Num 9007199254740991)]" "''A''"] s(3)
  have r2: "clockAt (incrementVectorClock [(''A'', Num 9007199254740991)] ''A'') ''A'' = 9007199254740992"
    by (simp add: c)
  have n: "readsNumber [(''A'', Num 9007199254740994)] ''A''"
    by (simp add: readsNumber_def)
  from incrementVectorClock_safe_dimension[of "[(''A'', Num 9007199254740994)]" "''A''"] n
  have r3: "clockAt [(''A'', Num 9007199254740994)] ''A''
        \<le> clockAt (incrementVectorClock [(''A'', Num 9007199254740994)] ''A'') ''A''"
    by blast
  from s e r1 r2 n r3 show ?thesis by simp
qed

theorem incrementVectorClock_at_2_53:
  "clockAt [(''A'', Num 9007199254740992)] ''A'' = 9007199254740992
   \<and> incrementVectorClock [(''A'', Num 9007199254740992)] ''A'' = [(''A'', Num 9007199254740992)]
   \<and> clockAt (incrementVectorClock [(''A'', Num 9007199254740992)] ''A'') ''A''
        \<noteq> clockAt [(''A'', Num 9007199254740992)] ''A'' + 1"
  by (simp add: hub_defs clockAt_def)

lemma reference_at_constructor: "compareSpec [(''constructor'', Num 1)] [] After"
  by (simp add: compareSpec_def agents_def clockAt_def)

text \<open>
  C7. The code at a clock with a key that Object.prototype has: comparing {constructor: 1}
  with the empty clock, the read \<^verbatim>\<open>b['constructor'] || 0\<close> gives the inherited function, both
  comparisons with it are false, and the result is \<open>Equal\<close> in either order, although in that
  dimension the first clock holds 1 and the second nothing, which counts as 0 (the reference
  definition says \<open>After\<close>, lemma \<open>reference_at_constructor\<close>).
\<close>

theorem compareVectorClocks_inherited_key:
  "compareVectorClocks [(''constructor'', Num 1)] [] = Equal
   \<and> compareVectorClocks [] [(''constructor'', Num 1)] = Equal
   \<and> clockAt [(''constructor'', Num 1)] ''constructor'' = 1
   \<and> clockAt [] ''constructor'' = 0
   \<and> jsGet [] ''constructor'' = Member ''constructor''"
  by (simp add: hub_defs clockAt_def)

text \<open>
  C8. The code at clocks with a key that Object.prototype has: merging {A: 1} with a clock
  whose own key \<^verbatim>\<open>__proto__\<close> holds 5 returns {A: 1} (the assignment to \<^verbatim>\<open>result['__proto__']\<close>
  stores nothing), and in the other order {__proto__: 5, A: 1}; merging {A: 1} with
  {constructor: 5} stores NaN under \<^verbatim>\<open>constructor\<close>. All three inputs are clocks of the data
  model: each key once, non-negative integers.
\<close>

theorem mergeVectorClocks_inherited_key:
  "mergeVectorClocks [(''A'', Num 1)] [(''__proto__'', Num 5)] = [(''A'', Num 1)]
   \<and> mergeVectorClocks [(''__proto__'', Num 5)] [(''A'', Num 1)] = [(''__proto__'', Num 5), (''A'', Num 1)]
   \<and> mergeVectorClocks [(''A'', Num 1)] [(''constructor'', Num 5)] = [(''A'', Num 1), (''constructor'', NaN)]
   \<and> clockAt (mergeVectorClocks [(''A'', Num 1)] [(''__proto__'', Num 5)]) ''__proto__'' = 0
   \<and> clockAt [(''__proto__'', Num 5)] ''__proto__'' = 5"
  by (simp add: hub_defs clockAt_def)

section \<open>Conflicts whose resolution is not carried out\<close>

text \<open>
  C1. The code at a conflicting update that the remote wins: the hub of agent A, connected,
  under last-write-wins, pulls the one update \<open>remoteB\<close> (clock {A:0, B:1}). The sync succeeds
  and reports one conflict with resolution \<open>Remote\<close>, yet no update has been handed to
  applyUpdate and the hub's clock has not been merged with the update's. The same holds under
  the merge strategy, with resolution \<open>Merge\<close>. (By \<open>sync_applied\<close>, applyUpdate receives exactly
  the pulled updates that were not concurrent, whatever the resolution of the others.)
\<close>

theorem sync_never_applies_resolved_conflict:
  "fst (sync (pullReturnsEnv [remoteB]) hubA) =
     Inr \<lparr>success = True, pullCount = 1, pushCount = 0, conflictCount = 1,
          resolvedConflicts =
            [\<lparr>recordId = ''r1'',
              localVersion = \<lparr>id_u = ''r1'', operation_u = Update, data_u = None,
                               vectorClock_u = [(''A'', Num 1)], timestamp_u = 1003\<rparr>,
              remoteVersion = remoteB,
              resolution = Remote, reason = ''Remote has newer timestamp''\<rparr>],
          durationMs = 3, vectorClock_r = [(''A'', Num 1)]\<rparr>
   \<and> applied (snd (sync (pullReturnsEnv [remoteB]) hubA)) = []
   \<and> vectorClock (snd (sync (pullReturnsEnv [remoteB]) hubA)) = [(''A'', Num 1)]
   \<and> map resolution (case fst (sync (pullReturnsEnv [remoteB]) hubMerge) of
                        Inl err \<Rightarrow> [] | Inr r \<Rightarrow> resolvedConflicts r) = [Merge]
   \<and> applied (snd (sync (pullReturnsEnv [remoteB]) hubMerge)) = []"
  by (simp add: hub_defs example_defs)

text \<open>
  C4. The code under first-write-wins at a local version whose timestamp is 0: the change log
  holds an entry for record r1 stamped 0, the remote update for r1 is stamped 2000, and the
  resolution is \<open>Remote\<close> with reason "Remote has older timestamp", because
  \<^verbatim>\<open>localVersion?.timestamp || Infinity\<close> takes the timestamp 0 for a missing one. (By
  \<open>resolveConflict_resolution\<close>, every other row of the decision table is as the strategy says.)
\<close>

theorem first_write_wins_zero_local_timestamp:
  "conflictResolution (config hubFirst) = Some FirstWriteWins
   \<and> changeLog hubFirst = [localChange\<lparr>vectorClock_u := [(''A'', Num 0)], timestamp_u := 0\<rparr>]
   \<and> id_u remoteB = id_u localChange
   \<and> timestamp_u remoteB = 2000
   \<and> fst (resolveConflict epochEnv hubFirst remoteB) =
       \<lparr>recordId = ''r1'',
        localVersion = localChange\<lparr>vectorClock_u := [(''A'', Num 0)], timestamp_u := 0\<rparr>,
        remoteVersion = remoteB,
        resolution = Remote, reason = ''Remote has older timestamp''\<rparr>"
  by (simp add: hub_defs example_defs)

end
